theory Spec2Isabelle
  imports
    Complex_Main
    "HOL-Library.Char_ord"
    "HOL-Library.List_Lexorder"
    "HOL-Library.Product_Lexorder"
begin

section \<open>Data model\<close>

text \<open>
  The notebooks (\<^verbatim>\<open>PheWAS_py.ipynb\<close>, \<^verbatim>\<open>py_PICSURE-API_101_PheWAS_example.ipynb\<close> and
  the third, unnamed notebook) are pandas scripts. A cell of the cohort matrix
  \<^verbatim>\<open>facts\<close> is a missing value (pandas' NaN/None), a string (a category label) or a
  number. A column holds values of one kind.
\<close>

datatype cell = Missing | Str string | Num real

text \<open>
  A numpy float: the p-values, their adjusted values and \<^verbatim>\<open>log_p\<close>. The finite floats
  are abstracted to the reals (no rounding); the two infinities and \<^verbatim>\<open>np.NaN\<close> are kept
  apart, since the code tests for them (\<^verbatim>\<open>isna\<close>, \<^verbatim>\<open>replace([np.inf, -np.inf], np.nan)\<close>).
\<close>

datatype npfloat = Fin real | PInf | NInf | NaN

text \<open>The Python exceptions that the modelled statements raise or catch.\<close>

datatype exn =
    KeyError | ValueError | IndexError | ZeroDivisionError | AttributeError
  | LinAlgError | PerfectSeparationError | OtherError

text \<open>
  A data frame: its column names and its rows (one per subject), a row giving the cell
  of every column. Only the cells of listed columns mean anything.
\<close>

record frame =
  columns :: "string list"
  rows :: "(string \<Rightarrow> cell) list"

text \<open>\<^verbatim>\<open>facts[name]\<close>: the column as a list, \<^verbatim>\<open>KeyError\<close> when there is no such column.\<close>

definition getcol :: "frame \<Rightarrow> string \<Rightarrow> exn + cell list" where
  "getcol f c = (if c \<in> set (columns f) then Inr (map (\<lambda>r. r c) (rows f)) else Inl KeyError)"

text \<open>\<^verbatim>\<open>Series.isin(values)\<close>, elementwise: a missing value is in no list of strings.\<close>

definition isin :: "cell \<Rightarrow> string list \<Rightarrow> bool" where
  "isin c vals = (case c of Str s \<Rightarrow> s \<in> set vals | _ \<Rightarrow> False)"

text \<open>\<^verbatim>\<open>facts.loc[mask, :]\<close> for a boolean mask aligned with the rows.\<close>

definition loc_rows :: "bool list \<Rightarrow> 'a list \<Rightarrow> 'a list" where
  "loc_rows keep xs = map snd (filter fst (zip keep xs))"

section \<open>Distinct values and their counts\<close>

text \<open>
  pandas orders the keys of a \<^verbatim>\<open>groupby\<close>, the labels of a \<^verbatim>\<open>crosstab\<close> and the categories
  of a categorical column: the distinct observed (non-missing) values, sorted; numbers by
  value and strings lexicographically.
\<close>

definition cell_rank :: "cell \<Rightarrow> nat \<times> real \<times> string" where
  "cell_rank c = (case c of Num x \<Rightarrow> (0, x, []) | Str s \<Rightarrow> (1, 0, s) | Missing \<Rightarrow> (2, 0, []))"

definition unique_sorted :: "cell list \<Rightarrow> cell list" where
  "unique_sorted xs = sort_key cell_rank (remdups [x \<leftarrow> xs. x \<noteq> Missing])"

text \<open>\<^verbatim>\<open>Series.value_counts().tolist()\<close>: the counts of the distinct observed values, largest first.\<close>

definition value_counts :: "cell list \<Rightarrow> nat list" where
  "value_counts xs = rev (sort (map (count_list xs) (unique_sorted xs)))"

section \<open>Cohort Filter\<close>

text \<open>
  The cell that filters the cohort (the same in the three notebooks; \<^verbatim>\<open>PheWAS_py.ipynb\<close>
  also casts the column to a categorical dtype, which changes no row and no count):

  \<^verbatim>\<open>mask_dependent_var_name = facts[dependent_var_name].isin(["Case", "Control"])\<close>
  \<^verbatim>\<open>facts = facts.loc[mask_dependent_var_name,:]\<close>
  \<^verbatim>\<open>print("Control: {0} individuals[newline]Case: {1} individuals".format(\<close>
  \<^verbatim>\<open>      *facts[dependent_var_name].value_counts().tolist()))\<close>

  \<^verbatim>\<open>value_counts\<close> gives one count per distinct observed value, the largest first, and
  \<^verbatim>\<open>format\<close> with the fields \<^verbatim>\<open>{0}\<close> and \<^verbatim>\<open>{1}\<close> raises \<^verbatim>\<open>IndexError\<close> when it is given fewer
  than two arguments. The print comes after the assignment: when it raises, \<^verbatim>\<open>facts\<close> is
  already the filtered matrix. The outcome of the cell is the new \<^verbatim>\<open>facts\<close>, or the
  exception together with \<^verbatim>\<open>facts\<close> as the cell left it.
\<close>

definition mask_dependent_var_name :: "frame \<Rightarrow> string \<Rightarrow> exn + bool list" where
  "mask_dependent_var_name facts dep =
     (case getcol facts dep of
        Inl e \<Rightarrow> Inl e
      | Inr c \<Rightarrow> Inr (map (\<lambda>x. isin x [''Case'', ''Control'']) c))"

definition format_two :: "nat list \<Rightarrow> exn + nat \<times> nat" where
  "format_two counts = (case counts of a # b # _ \<Rightarrow> Inr (a, b) | _ \<Rightarrow> Inl IndexError)"

definition cohort_filter :: "frame \<Rightarrow> string \<Rightarrow> (exn \<times> frame) + frame" where
  "cohort_filter facts dep =
     (case mask_dependent_var_name facts dep of
        Inl e \<Rightarrow> Inl (e, facts)
      | Inr keep \<Rightarrow>
          (let kept = facts\<lparr>rows := loc_rows keep (rows facts)\<rparr>
           in case format_two (value_counts (map (\<lambda>r. r dep) (rows kept))) of
                Inl e \<Rightarrow> Inl (e, kept)
              | Inr shown \<Rightarrow> Inr kept))"

section \<open>Grouping and tabulating\<close>

text \<open>\<^verbatim>\<open>Series.dropna()\<close>.\<close>

definition dropna :: "cell list \<Rightarrow> cell list" where
  "dropna xs = [x \<leftarrow> xs. x \<noteq> Missing]"

text \<open>
  \<^verbatim>\<open>facts_dummies.groupby(dep)[var]\<close>, iterated: one pair (key, values of \<^verbatim>\<open>var\<close>) per
  distinct non-missing value of the grouping column, in key order.
\<close>

definition groupby :: "frame \<Rightarrow> string \<Rightarrow> string \<Rightarrow> (cell \<times> cell list) list" where
  "groupby fd dep var =
     map (\<lambda>k. (k, map (\<lambda>r. r var) [r \<leftarrow> rows fd. r dep = k]))
         (unique_sorted (map (\<lambda>r. r dep) (rows fd)))"

text \<open>
  \<^verbatim>\<open>pd.crosstab(a, b)\<close>: the counts of the pairs of values of two aligned columns, over the
  rows where both are observed; one table row per distinct value of \<^verbatim>\<open>a\<close>, one table column
  per distinct value of \<^verbatim>\<open>b\<close>. \<^verbatim>\<open>shape\<close> is the pair (rows, columns).
\<close>

definition crosstab :: "cell list \<Rightarrow> cell list \<Rightarrow> nat list list" where
  "crosstab a b =
     (let pairs = [p \<leftarrow> zip a b. fst p \<noteq> Missing \<and> snd p \<noteq> Missing]
      in map (\<lambda>x. map (\<lambda>y. count_list pairs (x, y)) (unique_sorted (map snd pairs)))
             (unique_sorted (map fst pairs)))"

definition shape :: "nat list list \<Rightarrow> nat \<times> nat" where
  "shape t = (length t, (case t of [] \<Rightarrow> 0 | r # _ \<Rightarrow> length r))"

section \<open>Univariate Screener: Mann-Whitney U loop\<close>

text \<open>
  The results dictionaries \<^verbatim>\<open>dic_mannwhitneyu\<close>, \<^verbatim>\<open>dic_fisher\<close>, \<^verbatim>\<open>dic_pvalues\<close>. A loop
  that an uncaught exception aborts leaves the dictionary as it was at that point (it is a
  notebook global): the outcome of a loop is the final dictionary, or the exception with the
  dictionary filled so far.
\<close>

type_synonym dic = "string \<rightharpoonup> npfloat"

type_synonym outcome = "(exn \<times> dic) + dic"

text \<open>
  The statistical tests are library functions (scipy, statsmodels); they are parameters of
  the model. \<^verbatim>\<open>stats.mannwhitneyu(group1, group2).pvalue\<close> is \<open>mwu group1 group2\<close>: the
  p-value it returns (possibly NaN) or the exception it raises.

  \<^verbatim>\<open>for var in continuous_varnames:\<close>
  \<^verbatim>\<open>    group1, group2 = [group[1].dropna() for group in grouped[var]]\<close>
  \<^verbatim>\<open>    try:\<close>
  \<^verbatim>\<open>        dic_mannwhitneyu[var] = stats.mannwhitneyu(group1, group2).pvalue\<close>
  \<^verbatim>\<open>    except ValueError:\<close>
  \<^verbatim>\<open>        dic_mannwhitneyu[var] = np.NaN\<close>
  The unpacking into two names raises \<^verbatim>\<open>ValueError\<close> unless there are exactly two groups,
  and it stands before the \<^verbatim>\<open>try\<close>.
\<close>

definition mannwhitneyu_var ::
  "(cell list \<Rightarrow> cell list \<Rightarrow> exn + npfloat) \<Rightarrow> frame \<Rightarrow> string \<Rightarrow> string \<Rightarrow> exn + npfloat" where
  "mannwhitneyu_var mwu fd dep var =
     (if var \<notin> set (columns fd) then Inl KeyError
      else case map (\<lambda>g. dropna (snd g)) (groupby fd dep var) of
             [group1, group2] \<Rightarrow>
               (case mwu group1 group2 of
                  Inr p \<Rightarrow> Inr p
                | Inl e \<Rightarrow> if e = ValueError then Inr NaN else Inl e)
           | _ \<Rightarrow> Inl ValueError)"

fun mannwhitneyu_loop ::
  "(cell list \<Rightarrow> cell list \<Rightarrow> exn + npfloat) \<Rightarrow> frame \<Rightarrow> string \<Rightarrow> string list \<Rightarrow> dic \<Rightarrow> outcome" where
  "mannwhitneyu_loop mwu fd dep [] d = Inr d"
| "mannwhitneyu_loop mwu fd dep (var # vars) d =
     (case mannwhitneyu_var mwu fd dep var of
        Inl e \<Rightarrow> Inl (e, d)
      | Inr p \<Rightarrow> mannwhitneyu_loop mwu fd dep vars (d(var \<mapsto> p)))"

definition dic_mannwhitneyu ::
  "(cell list \<Rightarrow> cell list \<Rightarrow> exn + npfloat) \<Rightarrow> frame \<Rightarrow> string \<Rightarrow> string list \<Rightarrow> outcome" where
  "dic_mannwhitneyu mwu fd dep continuous_varnames =
     (if dep \<notin> set (columns fd) then Inl (KeyError, Map.empty)
      else mannwhitneyu_loop mwu fd dep continuous_varnames Map.empty)"

section \<open>Dummy columns\<close>

text \<open>
  \<^verbatim>\<open>facts_dummies = pd.get_dummies(facts, columns=categorical_varnames, drop_first=True)\<close>
  runs on the filtered cohort. Every listed column is replaced by one indicator column per
  distinct observed value but the first (in sorted order), named \<^verbatim>\<open>variable_value\<close>; its
  cell is 1 where the subject has that value and 0 elsewhere, also where the value is
  missing. The other columns are kept and stand before the indicator columns. A listed name
  that is no column raises \<^verbatim>\<open>KeyError\<close>. \<open>str_of\<close> is Python's \<^verbatim>\<open>str\<close>, which writes the
  value into the name.
\<close>

definition dummy_columns :: "(cell \<Rightarrow> string) \<Rightarrow> frame \<Rightarrow> string \<Rightarrow> (string \<times> string \<times> cell) list" where
  "dummy_columns str_of facts v =
     map (\<lambda>k. (v @ ''_'' @ str_of k, v, k)) (tl (unique_sorted (map (\<lambda>r. r v) (rows facts))))"

definition dummy_row :: "(string \<times> string \<times> cell) list \<Rightarrow> (string \<Rightarrow> cell) \<Rightarrow> string \<Rightarrow> cell" where
  "dummy_row dums r c =
     (case find (\<lambda>d. fst d = c) dums of
        Some (n, v, k) \<Rightarrow> if r v = k then Num 1 else Num 0
      | None \<Rightarrow> r c)"

definition get_dummies_frame :: "(cell \<Rightarrow> string) \<Rightarrow> frame \<Rightarrow> string list \<Rightarrow> exn + frame" where
  "get_dummies_frame str_of facts categorical_varnames =
     (if \<not> set categorical_varnames \<subseteq> set (columns facts) then Inl KeyError
      else
        (let dums = concat (map (dummy_columns str_of facts) categorical_varnames)
         in Inr \<lparr>columns = [c \<leftarrow> columns facts. c \<notin> set categorical_varnames] @ map fst dums,
                 rows = map (dummy_row dums) (rows facts)\<rparr>))"

section \<open>Univariate Screener: Fisher exact test loop\<close>

text \<open>
  \<^verbatim>\<open>stats.fisher_exact(table)[1]\<close>: scipy raises \<^verbatim>\<open>ValueError\<close> unless the table is 2 by 2,
  and otherwise returns the p-value, the parameter \<open>pvalue\<close>.
\<close>

definition fisher_exact :: "(nat list list \<Rightarrow> npfloat) \<Rightarrow> nat list list \<Rightarrow> exn + npfloat" where
  "fisher_exact pvalue t = (if shape t = (2, 2) then Inr (pvalue t) else Inl ValueError)"

text \<open>
  An entry of \<^verbatim>\<open>dummy_categorical_varnames\<close> is a string or, where the dictionary join
  found no dummy column, a NaN (not a \<^verbatim>\<open>str\<close>): \<open>Some name\<close> or \<open>None\<close>.

  \<^verbatim>\<open>for var in tqdm(dummy_categorical_varnames, position=0, leave=True):\<close>
  \<^verbatim>\<open>    if type(var) != str:\<close>
  \<^verbatim>\<open>        continue\<close>
  \<^verbatim>\<open>    elif var not in facts_dummies.columns:\<close>
  \<^verbatim>\<open>        continue\<close>
  \<^verbatim>\<open>    crosstab = pd.crosstab(facts_dummies[var], facts_dummies[dependent_var_name])\<close>
  \<^verbatim>\<open>    if crosstab.shape == (1,2):\<close>
  \<^verbatim>\<open>        dic_fisher[var] = np.NaN\<close>
  \<^verbatim>\<open>    else:\<close>
  \<^verbatim>\<open>        dic_fisher[var] = stats.fisher_exact(crosstab)[1]\<close>
\<close>

definition fisher_var ::
  "(nat list list \<Rightarrow> npfloat) \<Rightarrow> frame \<Rightarrow> string \<Rightarrow> string \<Rightarrow> exn + npfloat" where
  "fisher_var pvalue fd dep var =
     (case getcol fd var of
        Inl e \<Rightarrow> Inl e
      | Inr a \<Rightarrow>
         (case getcol fd dep of
            Inl e \<Rightarrow> Inl e
          | Inr b \<Rightarrow>
              if shape (crosstab a b) = (1, 2) then Inr NaN
              else fisher_exact pvalue (crosstab a b)))"

fun fisher_loop ::
  "(nat list list \<Rightarrow> npfloat) \<Rightarrow> frame \<Rightarrow> string \<Rightarrow> string option list \<Rightarrow> dic \<Rightarrow> outcome" where
  "fisher_loop pvalue fd dep [] d = Inr d"
| "fisher_loop pvalue fd dep (None # vars) d = fisher_loop pvalue fd dep vars d"
| "fisher_loop pvalue fd dep (Some var # vars) d =
     (if var \<notin> set (columns fd) then fisher_loop pvalue fd dep vars d
      else case fisher_var pvalue fd dep var of
             Inl e \<Rightarrow> Inl (e, d)
           | Inr p \<Rightarrow> fisher_loop pvalue fd dep vars (d(var \<mapsto> p)))"

definition dic_fisher ::
  "(nat list list \<Rightarrow> npfloat) \<Rightarrow> frame \<Rightarrow> string \<Rightarrow> string option list \<Rightarrow> outcome" where
  "dic_fisher pvalue fd dep dummy_categorical_varnames =
     fisher_loop pvalue fd dep dummy_categorical_varnames Map.empty"

text \<open>
  \<^verbatim>\<open>py_PICSURE-API_101_PheWAS_example.ipynb\<close> runs the same loop over the first 500 entries
  only (\<^verbatim>\<open>.values[:500]\<close>), inside \<^verbatim>\<open>try: ... except AttributeError:\<close>, which ends the loop
  quietly on that exception and on no other.
\<close>

definition dic_fisher_101 ::
  "(nat list list \<Rightarrow> npfloat) \<Rightarrow> frame \<Rightarrow> string \<Rightarrow> string option list \<Rightarrow> outcome" where
  "dic_fisher_101 pvalue fd dep names =
     (case fisher_loop pvalue fd dep (take 500 names) Map.empty of
        Inr d \<Rightarrow> Inr d
      | Inl (e, d) \<Rightarrow> if e = AttributeError then Inr d else Inl (e, d))"

section \<open>Univariate Screener: likelihood-ratio loop\<close>

text \<open>
  \<^verbatim>\<open>PheWAS_py.ipynb\<close> screens every variable with one logistic regression. The variable
  dictionary is the list of its rows, each with the variable's name (\<^verbatim>\<open>varName\<close>) and its
  flag \<^verbatim>\<open>categorical\<close>.
\<close>

type_synonym variablesDict = "(string \<times> bool) list"

text \<open>\<^verbatim>\<open>DataFrame.dropna(how="any")\<close> on the columns \<open>cs\<close>.\<close>

definition dropna_any :: "string list \<Rightarrow> (string \<Rightarrow> cell) list \<Rightarrow> (string \<Rightarrow> cell) list" where
  "dropna_any cs rs = [r \<leftarrow> rs. \<forall>c \<in> set cs. r c \<noteq> Missing]"

text \<open>
  \<^verbatim>\<open>pd.get_dummies(matrix, columns=[v], drop_first=False)\<close>: one indicator column per
  distinct value of the column, in sorted order.
\<close>

definition get_dummies :: "cell list \<Rightarrow> cell list list" where
  "get_dummies xs = map (\<lambda>k. map (\<lambda>x. if x = k then Num 1 else Num 0) xs) (unique_sorted xs)"

text \<open>\<^verbatim>\<open>.cat.codes\<close>: the position of each value among the categories, -1 when it is none.\<close>

fun index_of :: "'a \<Rightarrow> 'a list \<Rightarrow> int" where
  "index_of x [] = -1"
| "index_of x (y # ys) =
     (if x = y then 0 else (let i = index_of x ys in if i < 0 then -1 else i + 1))"

definition cat_codes :: "cell list \<Rightarrow> cell list \<Rightarrow> int list" where
  "cat_codes categories xs = map (\<lambda>x. index_of x categories) xs"

text \<open>The arguments of \<^verbatim>\<open>Logit(dependent_var, independent_var)\<close>; \<open>exog\<close> lists the columns.\<close>

record design =
  endog :: "int list"
  exog :: "cell list list"

text \<open>
  \<open>logit\<close> is the constructor \<^verbatim>\<open>Logit\<close> (called before the \<^verbatim>\<open>try\<close>) and \<open>fit\<close> is
  \<^verbatim>\<open>model.fit(disp=0)\<close> followed by \<^verbatim>\<open>results.llr_pvalue\<close> (both inside the \<^verbatim>\<open>try\<close>).
  \<^verbatim>\<open>simple_index_variablesDict.loc[name, "categorical"]\<close> raises \<^verbatim>\<open>KeyError\<close> when no row
  of the dictionary has that name, gives the flag when one row has it, and gives a Series
  when several rows have it, on which \<^verbatim>\<open>if\<close> raises \<^verbatim>\<open>ValueError\<close>.
  \<open>llr_design\<close> builds the two arguments of \<^verbatim>\<open>Logit\<close> from the two-column sub-table; the
  categories behind \<^verbatim>\<open>.cat.codes\<close> are those of the whole grouping column of \<^verbatim>\<open>facts\<close>.

  \<^verbatim>\<open>for independent_varName in tqdm(independent_varNames, position=0, leave=True):\<close>
  \<^verbatim>\<open>    matrix = facts.loc[:, [dependent_var_name, independent_varName]].dropna(how="any")\<close>
  \<^verbatim>\<open>    if matrix.shape[0] == 0:\<close>
  \<^verbatim>\<open>        dic_pvalues[independent_varName] = np.NaN\<close>
  \<^verbatim>\<open>        continue\<close>
  \<^verbatim>\<open>    if simple_index_variablesDict.loc[independent_varName, "categorical"]:\<close>
  \<^verbatim>\<open>        matrix = pd.get_dummies(matrix, columns=[independent_varName],\<close>
  \<^verbatim>\<open>                                drop_first=False).iloc[:, 0:-1]\<close>
  \<^verbatim>\<open>    dependent_var = matrix[dependent_var_name].cat.codes\<close>
  \<^verbatim>\<open>    independent_var = matrix.drop(dependent_var_name, axis=1).assign(intercept = 1)\<close>
  \<^verbatim>\<open>    model = Logit(dependent_var, independent_var)\<close>
  \<^verbatim>\<open>    try:\<close>
  \<^verbatim>\<open>        results = model.fit(disp=0)\<close>
  \<^verbatim>\<open>        dic_pvalues[independent_varName] = results.llr_pvalue\<close>
  \<^verbatim>\<open>    except (LinAlgError, PerfectSeparationError) as e:\<close>
  \<^verbatim>\<open>        dic_pvalues[independent_varName] = np.NaN\<close>
\<close>

definition llr_design :: "bool \<Rightarrow> frame \<Rightarrow> string \<Rightarrow> string \<Rightarrow> design" where
  "llr_design categorical facts dep v =
     (let matrix = dropna_any [dep, v] (rows facts);
          xs = map (\<lambda>r. r v) matrix;
          xcols = (if categorical then butlast (get_dummies xs) else [xs]);
          dependent_var =
            cat_codes (unique_sorted (map (\<lambda>r. r dep) (rows facts)))
                      (map (\<lambda>r. r dep) matrix);
          independent_var = xcols @ [map (\<lambda>r. Num 1) matrix]
      in \<lparr>endog = dependent_var, exog = independent_var\<rparr>)"

definition llr_var ::
  "(design \<Rightarrow> exn + 'm) \<Rightarrow> ('m \<Rightarrow> exn + npfloat) \<Rightarrow> variablesDict \<Rightarrow> frame \<Rightarrow> string \<Rightarrow> string
     \<Rightarrow> exn + npfloat" where
  "llr_var logit fit vd facts dep v =
     (if dep \<notin> set (columns facts) \<or> v \<notin> set (columns facts) then Inl KeyError
      else if length (dropna_any [dep, v] (rows facts)) = 0 then Inr NaN
      else
        (case [row \<leftarrow> vd. fst row = v] of
           [] \<Rightarrow> Inl KeyError
         | [(name, categorical)] \<Rightarrow>
             (case logit (llr_design categorical facts dep v) of
                Inl e \<Rightarrow> Inl e
              | Inr model \<Rightarrow>
                  (case fit model of
                     Inr p \<Rightarrow> Inr p
                   | Inl e \<Rightarrow>
                       if e = LinAlgError \<or> e = PerfectSeparationError then Inr NaN
                       else Inl e))
         | _ \<Rightarrow> Inl ValueError))"

fun llr_loop ::
  "(design \<Rightarrow> exn + 'm) \<Rightarrow> ('m \<Rightarrow> exn + npfloat) \<Rightarrow> variablesDict \<Rightarrow> frame \<Rightarrow> string \<Rightarrow> string list
     \<Rightarrow> dic \<Rightarrow> outcome" where
  "llr_loop logit fit vd facts dep [] d = Inr d"
| "llr_loop logit fit vd facts dep (v # vs) d =
     (case llr_var logit fit vd facts dep v of
        Inl e \<Rightarrow> Inl (e, d)
      | Inr p \<Rightarrow> llr_loop logit fit vd facts dep vs (d(v \<mapsto> p)))"

text \<open>
  \<^verbatim>\<open>independent_varNames = variablesDict["varName"].tolist()\<close>
  \<^verbatim>\<open>independent_varNames.remove(dependent_var_name)\<close>
  \<^verbatim>\<open>dependent_var = facts[dependent_var_name].astype("category").cat.codes\<close>
  (\<^verbatim>\<open>list.remove\<close> takes the first occurrence out and raises \<^verbatim>\<open>ValueError\<close> when there is
  none; the column access raises \<^verbatim>\<open>KeyError\<close> when the cohort matrix has no such column),
  then \<^verbatim>\<open>dic_pvalues = {}\<close> and the loop.
\<close>

definition dic_pvalues ::
  "(design \<Rightarrow> exn + 'm) \<Rightarrow> ('m \<Rightarrow> exn + npfloat) \<Rightarrow> variablesDict \<Rightarrow> frame \<Rightarrow> string \<Rightarrow> outcome" where
  "dic_pvalues logit fit vd facts dep =
     (if dep \<notin> set (map fst vd) then Inl (ValueError, Map.empty)
      else if dep \<notin> set (columns facts) then Inl (KeyError, Map.empty)
      else llr_loop logit fit vd facts dep (remove1 dep (map fst vd)) Map.empty)"

section \<open>Multiplicity Corrector\<close>

text \<open>
  The helper \<^verbatim>\<open>joining_variablesDict_onCol\<close> (\<^verbatim>\<open>python_lib/utils\<close>) that adds the column
  \<^verbatim>\<open>pvalues\<close> to the variable dictionary lives outside the notebooks. The corrector
  is modelled on what it returns: the rows of the joined dictionary, each with its name and
  its p-value, NaN where the variable has none.

  \<^verbatim>\<open>adjusted_alpha = 0.05/len(variablesDict["pvalues"])\<close>
  \<^verbatim>\<open>variablesDict["p_adj"] = variablesDict["pvalues"] / len(variablesDict["pvalues"])\<close>
  \<^verbatim>\<open>variablesDict['log_p'] = -np.log10(variablesDict['pvalues'])\<close>
  \<^verbatim>\<open>len\<close> of a column is its number of rows. The later \<^verbatim>\<open>sort_index\<close> and \<^verbatim>\<open>sort_values\<close>
  reorder rows by index levels that the missing helper builds; the order of the rows is left
  as it is here.
\<close>

record result_row =
  varName :: string
  pvalues :: npfloat
  p_adj :: npfloat
  log_p :: npfloat

definition adjusted_alpha :: "(string \<times> npfloat) list \<Rightarrow> exn + real" where
  "adjusted_alpha joined =
     (if length joined = 0 then Inl ZeroDivisionError
      else Inr (0.05 / real (length joined)))"

text \<open>A numpy float divided by a Python int.\<close>

definition np_div :: "npfloat \<Rightarrow> nat \<Rightarrow> npfloat" where
  "np_div x n =
     (case x of
        Fin p \<Rightarrow> if n \<noteq> 0 then Fin (p / real n)
                 else if p = 0 then NaN else if 0 < p then PInf else NInf
      | PInf \<Rightarrow> PInf | NInf \<Rightarrow> NInf | NaN \<Rightarrow> NaN)"

text \<open>\<^verbatim>\<open>-np.log10(x)\<close>: the logarithm of 0 is minus infinity, that of a negative number NaN.\<close>

definition neg_log10 :: "npfloat \<Rightarrow> npfloat" where
  "neg_log10 x =
     (case x of
        Fin p \<Rightarrow> if 0 < p then Fin (- log 10 p) else if p = 0 then PInf else NaN
      | PInf \<Rightarrow> NInf | NInf \<Rightarrow> NaN | NaN \<Rightarrow> NaN)"

definition corrector :: "(string \<times> npfloat) list \<Rightarrow> result_row list" where
  "corrector joined =
     map (\<lambda>(name, p). \<lparr>varName = name, pvalues = p,
                        p_adj = np_div p (length joined), log_p = neg_log10 p\<rparr>) joined"

section \<open>Reporter: the rows given to the Manhattan plot\<close>

text \<open>
  \<^verbatim>\<open>mask = variablesDict["pvalues"].isna()\<close>
  \<^verbatim>\<open>df_results = variablesDict.loc[~mask,:].copy().replace([np.inf, -np.inf], np.nan)\<close>
  \<^verbatim>\<open>df_results = df_results.loc[~df_results["log_p"].isna().values,:]\<close>
\<close>

definition replace_inf :: "npfloat \<Rightarrow> npfloat" where
  "replace_inf x = (if x = PInf \<or> x = NInf then NaN else x)"

definition df_results :: "result_row list \<Rightarrow> result_row list" where
  "df_results vd =
     (let unmasked = [r \<leftarrow> vd. pvalues r \<noteq> NaN];
          replaced = map (\<lambda>r. r\<lparr>pvalues := replace_inf (pvalues r),
                                 p_adj := replace_inf (p_adj r),
                                 log_p := replace_inf (log_p r)\<rparr>) unmasked
      in [r \<leftarrow> replaced. log_p r \<noteq> NaN])"

section \<open>Example cohorts\<close>

text \<open>
  Small cohort matrices on which the results below are evaluated. \<open>row_of\<close> makes the row
  of a subject from its observed cells; every other cell is missing.
\<close>

definition row_of :: "(string \<times> cell) list \<Rightarrow> string \<Rightarrow> cell" where
  "row_of kvs c = (case map_of kvs c of Some v \<Rightarrow> v | None \<Rightarrow> Missing)"

definition unfiltered_cohort :: frame where
  "unfiltered_cohort =
     \<lparr>columns = [''status'', ''x''],
      rows = [row_of [(''status'', Str ''Case''), (''x'', Num 1)],
              row_of [(''status'', Str ''Other''), (''x'', Num 2)],
              row_of [(''status'', Missing), (''x'', Num 3)],
              row_of [(''status'', Str ''Control''), (''x'', Missing)]]\<rparr>"

definition fully_missing_cohort :: frame where
  "fully_missing_cohort =
     \<lparr>columns = [''status'', ''x''],
      rows = [row_of [(''status'', Str ''Control''), (''x'', Missing)],
              row_of [(''status'', Str ''Case''), (''x'', Missing)]]\<rparr>"

definition one_group_cohort :: frame where
  "one_group_cohort =
     \<lparr>columns = [''status'', ''x'', ''smoker_yes''],
      rows = [row_of [(''status'', Str ''Case''), (''x'', Num 1), (''smoker_yes'', Num 0)],
              row_of [(''status'', Str ''Case''), (''x'', Num 2), (''smoker_yes'', Num 0)]]\<rparr>"

definition two_group_cohort :: frame where
  "two_group_cohort =
     \<lparr>columns = [''status'', ''x'', ''smoker_yes'', ''site_B''],
      rows = [row_of [(''status'', Str ''Control''), (''x'', Num 1), (''smoker_yes'', Num 0), (''site_B'', Num 0)],
              row_of [(''status'', Str ''Case''), (''x'', Num 2), (''smoker_yes'', Num 1), (''site_B'', Num 0)],
              row_of [(''status'', Str ''Case''), (''x'', Missing), (''smoker_yes'', Num 0), (''site_B'', Num 0)]]\<rparr>"

text \<open>
  A filtered cohort for the likelihood-ratio loop, with its variable dictionary: \<^verbatim>\<open>x\<close> is
  observed for two subjects, \<^verbatim>\<open>y\<close> for none, \<^verbatim>\<open>z\<close> for all three.
\<close>

definition example_facts :: frame where
  "example_facts =
     \<lparr>columns = [''status'', ''x'', ''y'', ''z''],
      rows = [row_of [(''status'', Str ''Control''), (''x'', Num 1), (''y'', Missing), (''z'', Num 5)],
              row_of [(''status'', Str ''Case''), (''x'', Num 2), (''y'', Missing), (''z'', Num 3)],
              row_of [(''status'', Str ''Case''), (''x'', Missing), (''y'', Missing), (''z'', Num 4)]]\<rparr>"

definition example_dict :: variablesDict where
  "example_dict = [(''status'', True), (''x'', False), (''y'', False), (''z'', False)]"

text \<open>
  Stand-ins for the library tests on these cohorts: a fit that fails on a design of two rows,
  a Mann-Whitney test that raises on two samples of one value each.
\<close>

definition fit_stub :: "design \<Rightarrow> exn + npfloat" where
  "fit_stub m = (if length (endog m) = 2 then Inl LinAlgError else Inr (Fin (1/2)))"


text \<open>
  Two raw cohort matrices with categorical columns, before the filter: in \<open>survey\<close> both
  groups occur and \<^verbatim>\<open>site\<close> has one value only; in \<open>survey_cases\<close> every subject is a case.
  \<open>str_label\<close> writes a string category as it is.
\<close>

definition str_label :: "cell \<Rightarrow> string" where
  "str_label c = (case c of Str s \<Rightarrow> s | _ \<Rightarrow> [])"

definition survey :: frame where
  "survey =
     \<lparr>columns = [''status'', ''site'', ''smoker''],
      rows = [row_of [(''status'', Str ''Control''), (''site'', Str ''A''), (''smoker'', Str ''no'')],
              row_of [(''status'', Str ''Other''), (''site'', Str ''B''), (''smoker'', Str ''no'')],
              row_of [(''status'', Str ''Case''), (''site'', Str ''A''), (''smoker'', Str ''yes'')],
              row_of [(''status'', Str ''Case''), (''site'', Str ''A''), (''smoker'', Str ''no'')]]\<rparr>"

definition survey_cases :: frame where
  "survey_cases =
     \<lparr>columns = [''status'', ''smoker'', ''sex''],
      rows = [row_of [(''status'', Str ''Case''), (''smoker'', Str ''no''), (''sex'', Str ''F'')],
              row_of [(''status'', Str ''Other''), (''smoker'', Str ''no''), (''sex'', Str ''F'')],
              row_of [(''status'', Str ''Case''), (''smoker'', Str ''yes''), (''sex'', Str ''M'')]]\<rparr>"

section \<open>Notions used to state the results\<close>

text \<open>
  The dictionary a screening loop leaves behind, whether it ended or was aborted.
\<close>

definition final_dic :: "outcome \<Rightarrow> dic" where
  "final_dic out = (case out of Inr d \<Rightarrow> d | Inl (e, d) \<Rightarrow> d)"

text \<open>
  The number of variables with a valid p-value, as the specification counts them: the rows
  of the joined dictionary whose p-value is not NaN.
\<close>

definition valid_pvalues :: "(string \<times> npfloat) list \<Rightarrow> nat" where
  "valid_pvalues joined = length [r \<leftarrow> joined. snd r \<noteq> NaN]"

text \<open>The row that the corrector builds from one row of a joined dictionary of \<open>n\<close> rows.\<close>

definition result_of :: "nat \<Rightarrow> string \<times> npfloat \<Rightarrow> result_row" where
  "result_of n = (\<lambda>(name, p). \<lparr>varName = name, pvalues = p, p_adj = np_div p n, log_p = neg_log10 p\<rparr>)"

text \<open>The rows with a finite, positive p-value.\<close>

definition plotted :: "result_row \<Rightarrow> bool" where
  "plotted r = (case pvalues r of Fin p \<Rightarrow> 0 < p | _ \<Rightarrow> False)"

text \<open>A joined dictionary of three variables: a valid p-value, an undefined one, and 0.\<close>

definition example_joined :: "(string \<times> npfloat) list" where
  "example_joined = [(''a'', Fin (1/100)), (''b'', NaN), (''c'', Fin 0)]"


section \<open>Counting the groups\<close>

lemma length_unique_sorted: "length (unique_sorted xs) = card (set xs - {Missing})"
proof -
  have "set [x \<leftarrow> xs. x \<noteq> Missing] = set xs - {Missing}" by auto
  then show ?thesis
    by (simp add: unique_sorted_def length_remdups_card_conv del: set_filter)
qed

lemma set_unique_sorted: "set (unique_sorted xs) = set xs - {Missing}"
  by (auto simp: unique_sorted_def)

lemma length_groupby: "length (groupby fd dep var) = card ((\<lambda>r. r dep) ` set (rows fd) - {Missing})"
  by (simp add: groupby_def length_unique_sorted)

lemma card_two_labels:
  assumes sub: "S \<subseteq> {a, b}" and ne: "a \<noteq> b"
  shows "card S = 2 \<longleftrightarrow> a \<in> S \<and> b \<in> S"
proof
  assume c: "card S = 2"
  have "card {a, b} = 2" using ne by simp
  with c sub have "S = {a, b}" by (intro card_subset_eq) simp_all
  then show "a \<in> S \<and> b \<in> S" by simp
next
  assume "a \<in> S \<and> b \<in> S"
  with sub have "S = {a, b}" by blast
  then show "card S = 2" using ne by simp
qed

lemma mem_observed:
  "a \<noteq> Missing \<Longrightarrow> a \<in> (\<lambda>r. r dep) ` set rs - {Missing} \<longleftrightarrow> (\<exists>r \<in> set rs. r dep = a)"
  by auto

lemma two_groups_card:
  assumes "\<forall>r \<in> set rs. r dep = Str ''Case'' \<or> r dep = Str ''Control''"
  shows "card ((\<lambda>r. r dep) ` set rs - {Missing}) = 2
     \<longleftrightarrow> (\<exists>r \<in> set rs. r dep = Str ''Case'') \<and> (\<exists>r \<in> set rs. r dep = Str ''Control'')"
proof -
  let ?S = "(\<lambda>r. r dep) ` set rs - {Missing}"
  have sub: "?S \<subseteq> {Str ''Case'', Str ''Control''}" using assms by blast
  have ne: "Str ''Case'' \<noteq> Str ''Control''" by simp
  show ?thesis
    unfolding card_two_labels [OF sub ne] by (simp only: mem_observed cell.distinct not_False_eq_True)
qed

lemma list2_case:
  "length xs = 2 \<Longrightarrow> \<exists>a b. xs = [a, b]"
  by (auto simp: numeral_2_eq_2 length_Suc_conv)

lemma not_list2_case:
  "length xs \<noteq> 2 \<Longrightarrow> (case xs of [a, b] \<Rightarrow> f a b | _ \<Rightarrow> z) = z"
  by (auto split: list.splits)

section \<open>Properties of the Cohort Filter\<close>

lemma loc_rows_map: "loc_rows (map P xs) xs = filter P xs"
  by (induction xs) (simp_all add: loc_rows_def)

lemma isin_Case_Control:
  "isin c [''Case'', ''Control''] \<longleftrightarrow> c = Str ''Case'' \<or> c = Str ''Control''"
  by (cases c) (auto simp: isin_def)

lemma length_value_counts: "length (value_counts xs) = card (set xs - {Missing})"
  by (simp add: value_counts_def length_unique_sorted)

lemma format_two_short: "length counts < 2 \<Longrightarrow> format_two counts = Inl IndexError"
  by (cases counts; cases "tl counts") (auto simp: format_two_def)

lemma format_two_long: "2 \<le> length counts \<Longrightarrow> \<exists>shown. format_two counts = Inr shown"
  by (cases counts; cases "tl counts") (auto simp: format_two_def)

lemma card_labels_le:
  assumes "S \<subseteq> {a, b}"
  shows "card S \<le> 2"
proof -
  have "card S \<le> card {a, b}" using assms by (intro card_mono) simp_all
  also have "\<dots> \<le> 2" by (simp add: card_insert_if)
  finally show ?thesis .
qed

lemma filtered_groups_le:
  assumes "\<forall>r \<in> set rs. r dep = Str ''Case'' \<or> r dep = Str ''Control''"
  shows "card ((\<lambda>r. r dep) ` set rs - {Missing}) \<le> 2"
proof -
  have "(\<lambda>r. r dep) ` set rs - {Missing} \<subseteq> {Str ''Case'', Str ''Control''}"
    using assms by blast
  then show ?thesis by (rule card_labels_le)
qed

lemma print_counts_outcome:
  assumes "\<forall>r \<in> set rs. r dep = Str ''Case'' \<or> r dep = Str ''Control''"
  shows "(\<exists>r \<in> set rs. r dep = Str ''Case'') \<and> (\<exists>r \<in> set rs. r dep = Str ''Control'')
           \<Longrightarrow> \<exists>shown. format_two (value_counts (map (\<lambda>r. r dep) rs)) = Inr shown"
    and "\<not> ((\<exists>r \<in> set rs. r dep = Str ''Case'') \<and> (\<exists>r \<in> set rs. r dep = Str ''Control''))
           \<Longrightarrow> format_two (value_counts (map (\<lambda>r. r dep) rs)) = Inl IndexError"
proof -
  have len: "length (value_counts (map (\<lambda>r. r dep) rs)) = card ((\<lambda>r. r dep) ` set rs - {Missing})"
    by (simp add: length_value_counts)
  {
    assume "(\<exists>r \<in> set rs. r dep = Str ''Case'') \<and> (\<exists>r \<in> set rs. r dep = Str ''Control'')"
    then have "card ((\<lambda>r. r dep) ` set rs - {Missing}) = 2"
      using two_groups_card [OF assms] by simp
    then have "2 \<le> length (value_counts (map (\<lambda>r. r dep) rs))" by (simp only: len)
    then show "\<exists>shown. format_two (value_counts (map (\<lambda>r. r dep) rs)) = Inr shown"
      by (rule format_two_long)
  }
  {
    assume "\<not> ((\<exists>r \<in> set rs. r dep = Str ''Case'') \<and> (\<exists>r \<in> set rs. r dep = Str ''Control''))"
    then have "card ((\<lambda>r. r dep) ` set rs - {Missing}) \<noteq> 2"
      using two_groups_card [OF assms] by simp
    moreover have "card ((\<lambda>r. r dep) ` set rs - {Missing}) \<le> 2"
      using assms by (rule filtered_groups_le)
    ultimately have "length (value_counts (map (\<lambda>r. r dep) rs)) < 2" by (simp only: len)
    then show "format_two (value_counts (map (\<lambda>r. r dep) rs)) = Inl IndexError"
      by (rule format_two_short)
  }
qed

lemma cohort_filter_outcome:
  assumes "dep \<in> set (columns facts)"
  shows "cohort_filter facts dep =
     (if (\<exists>r \<in> set (rows facts). r dep = Str ''Case'') \<and> (\<exists>r \<in> set (rows facts). r dep = Str ''Control'')
      then Inr (facts\<lparr>rows := [r \<leftarrow> rows facts. r dep = Str ''Case'' \<or> r dep = Str ''Control'']\<rparr>)
      else Inl (IndexError,
             facts\<lparr>rows := [r \<leftarrow> rows facts. r dep = Str ''Case'' \<or> r dep = Str ''Control'']\<rparr>))"
proof -
  let ?kept_rows = "[r \<leftarrow> rows facts. r dep = Str ''Case'' \<or> r dep = Str ''Control'']"
  have m: "mask_dependent_var_name facts dep =
      Inr (map (\<lambda>r. isin (r dep) [''Case'', ''Control'']) (rows facts))"
    using assms by (simp add: mask_dependent_var_name_def getcol_def comp_def)
  have k: "loc_rows (map (\<lambda>r. isin (r dep) [''Case'', ''Control'']) (rows facts)) (rows facts) = ?kept_rows"
    by (simp add: loc_rows_map isin_Case_Control)
  have f: "\<forall>r \<in> set ?kept_rows. r dep = Str ''Case'' \<or> r dep = Str ''Control''" by simp
  have c: "(\<exists>r \<in> set ?kept_rows. r dep = Str ''Case'') \<longleftrightarrow> (\<exists>r \<in> set (rows facts). r dep = Str ''Case'')"
    by auto
  have d: "(\<exists>r \<in> set ?kept_rows. r dep = Str ''Control'') \<longleftrightarrow> (\<exists>r \<in> set (rows facts). r dep = Str ''Control'')"
    by auto
  show ?thesis
  proof (cases "(\<exists>r \<in> set (rows facts). r dep = Str ''Case'') \<and> (\<exists>r \<in> set (rows facts). r dep = Str ''Control'')")
    case True
    then have "(\<exists>r \<in> set ?kept_rows. r dep = Str ''Case'') \<and> (\<exists>r \<in> set ?kept_rows. r dep = Str ''Control'')"
      by (simp only: c d)
    from print_counts_outcome(1) [OF f this]
    obtain shown where "format_two (value_counts (map (\<lambda>r. r dep) ?kept_rows)) = Inr shown" ..
    then show ?thesis using True by (simp add: cohort_filter_def m k Let_def)
  next
    case False
    then have "\<not> ((\<exists>r \<in> set ?kept_rows. r dep = Str ''Case'') \<and> (\<exists>r \<in> set ?kept_rows. r dep = Str ''Control''))"
      by (simp only: c d not_False_eq_True)
    from print_counts_outcome(2) [OF f this]
    have "format_two (value_counts (map (\<lambda>r. r dep) ?kept_rows)) = Inl IndexError" .
    then show ?thesis using False by (simp add: cohort_filter_def m k Let_def)
  qed
qed

text \<open>
  C7. On a cohort matrix that has the grouping column, the filter cell keeps the rows whose
  grouping value is \<^verbatim>\<open>Case\<close> or \<^verbatim>\<open>Control\<close>, in their order, and no other row: a row with
  any other value, or with a missing one, is dropped, and every kept row is in one of the
  two groups and not in both. When both values occur in the matrix the cell ends, and the
  kept rows fall into exactly two groups, none of them empty. When one of them does not
  occur, the closing \<^verbatim>\<open>print\<close> of the cell raises \<^verbatim>\<open>IndexError\<close>, after \<^verbatim>\<open>facts\<close> has been
  reassigned to the kept rows: a run of the cell that ends has two groups.
\<close>

theorem cohort_filter_keeps_case_control:
  assumes "dep \<in> set (columns facts)"
  shows "\<exists>kept. columns kept = columns facts
     \<and> rows kept = [r \<leftarrow> rows facts. r dep = Str ''Case'' \<or> r dep = Str ''Control'']
     \<and> (\<forall>r \<in> set (rows facts). r \<in> set (rows kept)
            \<longleftrightarrow> r dep = Str ''Case'' \<or> r dep = Str ''Control'')
     \<and> (\<forall>r \<in> set (rows facts). r dep = Missing \<longrightarrow> r \<notin> set (rows kept))
     \<and> (\<forall>r \<in> set (rows kept). (r dep = Str ''Case'') \<noteq> (r dep = Str ''Control''))
     \<and> (if (\<exists>r \<in> set (rows facts). r dep = Str ''Case'')
            \<and> (\<exists>r \<in> set (rows facts). r dep = Str ''Control'')
         then cohort_filter facts dep = Inr kept
            \<and> [r \<leftarrow> rows kept. r dep = Str ''Case''] \<noteq> []
            \<and> [r \<leftarrow> rows kept. r dep = Str ''Control''] \<noteq> []
            \<and> (\<lambda>r. r dep) ` set (rows kept) = {Str ''Case'', Str ''Control''}
         else cohort_filter facts dep = Inl (IndexError, kept))"
proof -
  let ?kept = "facts\<lparr>rows := [r \<leftarrow> rows facts. r dep = Str ''Case'' \<or> r dep = Str ''Control'']\<rparr>"
  have 1: "columns ?kept = columns facts" by simp
  have 2: "rows ?kept = [r \<leftarrow> rows facts. r dep = Str ''Case'' \<or> r dep = Str ''Control'']" by simp
  have 3: "\<forall>r \<in> set (rows facts). r \<in> set (rows ?kept)
            \<longleftrightarrow> r dep = Str ''Case'' \<or> r dep = Str ''Control''" by simp
  have 4: "\<forall>r \<in> set (rows facts). r dep = Missing \<longrightarrow> r \<notin> set (rows ?kept)" by simp
  have 5: "\<forall>r \<in> set (rows ?kept). (r dep = Str ''Case'') \<noteq> (r dep = Str ''Control'')" by auto
  have 6: "if (\<exists>r \<in> set (rows facts). r dep = Str ''Case'')
            \<and> (\<exists>r \<in> set (rows facts). r dep = Str ''Control'')
         then cohort_filter facts dep = Inr ?kept
            \<and> [r \<leftarrow> rows ?kept. r dep = Str ''Case''] \<noteq> []
            \<and> [r \<leftarrow> rows ?kept. r dep = Str ''Control''] \<noteq> []
            \<and> (\<lambda>r. r dep) ` set (rows ?kept) = {Str ''Case'', Str ''Control''}
         else cohort_filter facts dep = Inl (IndexError, ?kept)"
  proof (cases "(\<exists>r \<in> set (rows facts). r dep = Str ''Case'')
            \<and> (\<exists>r \<in> set (rows facts). r dep = Str ''Control'')")
    case True
    have a: "cohort_filter facts dep = Inr ?kept"
      using cohort_filter_outcome [OF assms] True by simp
    have b: "[r \<leftarrow> rows ?kept. r dep = Str ''Case''] \<noteq> []"
      using True by (auto simp: filter_empty_conv)
    have c: "[r \<leftarrow> rows ?kept. r dep = Str ''Control''] \<noteq> []"
      using True by (auto simp: filter_empty_conv)
    have d: "(\<lambda>r. r dep) ` set (rows ?kept) = {Str ''Case'', Str ''Control''}"
    proof (intro equalityI subsetI)
      fix x assume "x \<in> (\<lambda>r. r dep) ` set (rows ?kept)"
      then show "x \<in> {Str ''Case'', Str ''Control''}" by auto
    next
      fix x assume x: "x \<in> {Str ''Case'', Str ''Control''}"
      from True obtain r1 r2 where r1: "r1 \<in> set (rows facts)" "r1 dep = Str ''Case''"
        and r2: "r2 \<in> set (rows facts)" "r2 dep = Str ''Control''" by auto
      have k1: "r1 \<in> set (rows ?kept)" and k2: "r2 \<in> set (rows ?kept)" using r1 r2 by simp_all
      have "r1 dep \<in> (\<lambda>r. r dep) ` set (rows ?kept)" "r2 dep \<in> (\<lambda>r. r dep) ` set (rows ?kept)"
        using imageI [OF k1, of "\<lambda>r. r dep"] imageI [OF k2, of "\<lambda>r. r dep"] by (simp_all only:)
      then show "x \<in> (\<lambda>r. r dep) ` set (rows ?kept)" using x r1(2) r2(2) by auto
    qed
    show ?thesis using True a b c d by (simp only: if_True simp_thms)
  next
    case False
    have e: "cohort_filter facts dep = Inl (IndexError, ?kept)"
      unfolding cohort_filter_outcome [OF assms] using False by (rule if_not_P)
    show ?thesis unfolding if_not_P [OF False] by (rule e)
  qed
  from 1 2 3 4 5 6 show ?thesis by (intro exI [of _ ?kept] conjI)
qed

theorem cohort_filter_keeps_case_control_witness:
  "''status'' \<in> set (columns unfiltered_cohort)
   \<and> (\<exists>kept. cohort_filter unfiltered_cohort ''status'' = Inr kept \<and> length (rows kept) = 2)
   \<and> (\<exists>kept. cohort_filter one_group_cohort ''status'' = Inl (IndexError, kept)
          \<and> length (rows kept) = 2)"
proof -
  have c: "''status'' \<in> set (columns unfiltered_cohort)" "''status'' \<in> set (columns one_group_cohort)"
    by (simp_all add: unfiltered_cohort_def one_group_cohort_def)
  have a: "\<exists>kept. cohort_filter unfiltered_cohort ''status'' = Inr kept \<and> length (rows kept) = 2"
    using cohort_filter_keeps_case_control [OF c(1)]
    by (auto simp: unfiltered_cohort_def row_of_def)
  have b: "\<exists>kept. cohort_filter one_group_cohort ''status'' = Inl (IndexError, kept)
          \<and> length (rows kept) = 2"
    using cohort_filter_keeps_case_control [OF c(2)]
    by (auto simp: one_group_cohort_def row_of_def)
  from c(1) a b show ?thesis by (intro conjI)
qed

lemma cohort_filter_passed:
  assumes "cohort_filter raw dep = Inr facts"
  shows "dep \<in> set (columns facts)"
    and "\<forall>r \<in> set (rows facts). r dep = Str ''Case'' \<or> r dep = Str ''Control''"
    and "\<exists>r \<in> set (rows facts). r dep = Str ''Case''"
    and "\<exists>r \<in> set (rows facts). r dep = Str ''Control''"
proof -
  have depc: "dep \<in> set (columns raw)"
  proof (rule ccontr)
    assume "dep \<notin> set (columns raw)"
    then have "cohort_filter raw dep = Inl (KeyError, raw)"
      by (simp add: cohort_filter_def mask_dependent_var_name_def getcol_def)
    with assms show False by simp
  qed
  let ?both = "(\<exists>r \<in> set (rows raw). r dep = Str ''Case'') \<and> (\<exists>r \<in> set (rows raw). r dep = Str ''Control'')"
  have both: ?both
  proof (rule ccontr)
    assume "\<not> ?both"
    then have "cohort_filter raw dep = Inl (IndexError,
        raw\<lparr>rows := [r \<leftarrow> rows raw. r dep = Str ''Case'' \<or> r dep = Str ''Control'']\<rparr>)"
      unfolding cohort_filter_outcome [OF depc] by (rule if_not_P)
    with assms show False by simp
  qed
  have "cohort_filter raw dep
      = Inr (raw\<lparr>rows := [r \<leftarrow> rows raw. r dep = Str ''Case'' \<or> r dep = Str ''Control'']\<rparr>)"
    unfolding cohort_filter_outcome [OF depc] using both by (rule if_P)
  with assms have f: "facts = raw\<lparr>rows := [r \<leftarrow> rows raw. r dep = Str ''Case'' \<or> r dep = Str ''Control'']\<rparr>"
    by simp
  show "dep \<in> set (columns facts)" using depc by (simp add: f)
  show "\<forall>r \<in> set (rows facts). r dep = Str ''Case'' \<or> r dep = Str ''Control''" by (simp add: f)
  from both obtain r1 where "r1 \<in> set (rows raw)" "r1 dep = Str ''Case''" by blast
  then show "\<exists>r \<in> set (rows facts). r dep = Str ''Case''" by (auto simp: f)
  from both obtain r2 where "r2 \<in> set (rows raw)" "r2 dep = Str ''Control''" by blast
  then show "\<exists>r \<in> set (rows facts). r dep = Str ''Control''" by (auto simp: f)
qed

lemma survey_passes:
  "cohort_filter survey ''status''
     = Inr (survey\<lparr>rows := [r \<leftarrow> rows survey. r ''status'' = Str ''Case'' \<or> r ''status'' = Str ''Control'']\<rparr>)"
proof -
  have c: "''status'' \<in> set (columns survey)" by (simp add: survey_def)
  have b: "(\<exists>r \<in> set (rows survey). r ''status'' = Str ''Case'')
         \<and> (\<exists>r \<in> set (rows survey). r ''status'' = Str ''Control'')"
    by (simp add: survey_def row_of_def)
  show ?thesis unfolding cohort_filter_outcome [OF c] using b by (rule if_P)
qed

section \<open>Properties of the Mann-Whitney U loop\<close>

lemma mannwhitneyu_var_not_two_groups:
  assumes "var \<in> set (columns fd)" and "length (groupby fd dep var) \<noteq> 2"
  shows "mannwhitneyu_var mwu fd dep var = Inl ValueError"
proof -
  have "length (map (\<lambda>g. dropna (snd g)) (groupby fd dep var)) \<noteq> 2"
    using assms(2) by simp
  then show ?thesis
    using assms(1) unfolding mannwhitneyu_var_def by (simp add: not_list2_case)
qed

lemma mannwhitneyu_var_two_groups:
  assumes "var \<in> set (columns fd)" and "length (groupby fd dep var) = 2"
  shows "\<exists>group1 group2. map (\<lambda>g. dropna (snd g)) (groupby fd dep var) = [group1, group2]
     \<and> mannwhitneyu_var mwu fd dep var =
          (case mwu group1 group2 of
             Inr p \<Rightarrow> Inr p
           | Inl e \<Rightarrow> if e = ValueError then Inr NaN else Inl e)"
proof -
  have "length (map (\<lambda>g. dropna (snd g)) (groupby fd dep var)) = 2"
    using assms(2) by simp
  from list2_case [OF this]
  obtain a b where ab: "map (\<lambda>g. dropna (snd g)) (groupby fd dep var) = [a, b]"
    by auto
  show ?thesis
    using assms(1) unfolding mannwhitneyu_var_def ab by simp
qed

lemma mannwhitneyu_var_returns:
  assumes "var \<in> set (columns fd)" and "length (groupby fd dep var) = 2"
      and "\<forall>g1 g2 e. mwu g1 g2 = Inl e \<longrightarrow> e = ValueError"
  shows "\<exists>p. mannwhitneyu_var mwu fd dep var = Inr p"
proof -
  obtain a b where
    "mannwhitneyu_var mwu fd dep var =
       (case mwu a b of Inr p \<Rightarrow> Inr p | Inl e \<Rightarrow> if e = ValueError then Inr NaN else Inl e)"
    using mannwhitneyu_var_two_groups [OF assms(1,2)] by blast
  then show ?thesis using assms(3) by (cases "mwu a b") auto
qed

lemma mannwhitneyu_loop_completes:
  assumes "\<forall>v \<in> set vars. \<exists>p. mannwhitneyu_var mwu fd dep v = Inr p"
  shows "\<exists>d'. mannwhitneyu_loop mwu fd dep vars d = Inr d'
     \<and> dom d' = dom d \<union> set vars
     \<and> (\<forall>v \<in> set vars. mannwhitneyu_var mwu fd dep v = Inr (the (d' v)))
     \<and> (\<forall>k. k \<notin> set vars \<longrightarrow> d' k = d k)"
  using assms
proof (induction vars arbitrary: d)
  case Nil
  then show ?case by simp
next
  case (Cons v vs)
  from Cons.prems obtain p where p: "mannwhitneyu_var mwu fd dep v = Inr p" by auto
  from Cons.prems have rest: "\<forall>w \<in> set vs. \<exists>q. mannwhitneyu_var mwu fd dep w = Inr q" by simp
  from Cons.IH [OF rest, of "d(v \<mapsto> p)"] obtain d' where
    run: "mannwhitneyu_loop mwu fd dep vs (d(v \<mapsto> p)) = Inr d'"
    and dm: "dom d' = dom (d(v \<mapsto> p)) \<union> set vs"
    and vals: "\<forall>w \<in> set vs. mannwhitneyu_var mwu fd dep w = Inr (the (d' w))"
    and frame: "\<forall>k. k \<notin> set vs \<longrightarrow> d' k = (d(v \<mapsto> p)) k"
    by blast
  have "mannwhitneyu_loop mwu fd dep (v # vs) d = Inr d'" using p run by simp
  moreover have "dom d' = dom d \<union> set (v # vs)" using dm by auto
  moreover have "\<forall>w \<in> set (v # vs). mannwhitneyu_var mwu fd dep w = Inr (the (d' w))"
  proof
    fix w assume w: "w \<in> set (v # vs)"
    show "mannwhitneyu_var mwu fd dep w = Inr (the (d' w))"
    proof (cases "w \<in> set vs")
      case True then show ?thesis using vals by simp
    next
      case False
      with w have "w = v" by simp
      with False frame p show ?thesis by simp
    qed
  qed
  moreover have "\<forall>k. k \<notin> set (v # vs) \<longrightarrow> d' k = d k" using frame by simp
  ultimately show ?case by blast
qed

lemma groups_of_filtered:
  assumes "\<forall>r \<in> set (rows fd). r dep = Str ''Case'' \<or> r dep = Str ''Control''"
  shows "length (groupby fd dep var) = 2
     \<longleftrightarrow> (\<exists>r \<in> set (rows fd). r dep = Str ''Case'') \<and> (\<exists>r \<in> set (rows fd). r dep = Str ''Control'')"
  using two_groups_card [OF assms] by (simp only: length_groupby)

text \<open>
  C8. On a filtered cohort (every grouping-trait value is \<^verbatim>\<open>"Case"\<close> or \<^verbatim>\<open>"Control"\<close>) whose
  columns include the listed continuous variables, and with a test that raises nothing but
  \<^verbatim>\<open>ValueError\<close>: if both groups have a subject, the Mann-Whitney loop runs to its end and
  records one result per listed variable; if one of the groups has none and at least one
  variable is listed, the unpacking \<^verbatim>\<open>group1, group2 = ...\<close> of the first variable raises
  \<^verbatim>\<open>ValueError\<close> outside the \<^verbatim>\<open>try\<close>, and the loop stops with an empty dictionary: no
  variable gets a result, not even an undefined one.
\<close>

theorem mannwhitneyu_needs_both_groups:
  assumes filtered: "\<forall>r \<in> set (rows fd). r dep = Str ''Case'' \<or> r dep = Str ''Control''"
      and dep: "dep \<in> set (columns fd)"
      and cols: "set continuous_varnames \<subseteq> set (columns fd)"
      and test: "\<forall>g1 g2 e. mwu g1 g2 = Inl e \<longrightarrow> e = ValueError"
  shows "((\<exists>r \<in> set (rows fd). r dep = Str ''Case'') \<and> (\<exists>r \<in> set (rows fd). r dep = Str ''Control'')
            \<longrightarrow> (\<exists>d. dic_mannwhitneyu mwu fd dep continuous_varnames = Inr d
                     \<and> dom d = set continuous_varnames))
       \<and> (\<not> ((\<exists>r \<in> set (rows fd). r dep = Str ''Case'')
               \<and> (\<exists>r \<in> set (rows fd). r dep = Str ''Control''))
            \<and> continuous_varnames \<noteq> []
            \<longrightarrow> dic_mannwhitneyu mwu fd dep continuous_varnames = Inl (ValueError, Map.empty))"
proof (intro conjI impI)
  assume both: "(\<exists>r \<in> set (rows fd). r dep = Str ''Case'') \<and> (\<exists>r \<in> set (rows fd). r dep = Str ''Control'')"
  have "\<forall>v \<in> set continuous_varnames. \<exists>p. mannwhitneyu_var mwu fd dep v = Inr p"
  proof
    fix v assume "v \<in> set continuous_varnames"
    then have "v \<in> set (columns fd)" using cols by blast
    moreover have "length (groupby fd dep v) = 2"
      using groups_of_filtered [OF filtered] both by simp
    ultimately show "\<exists>p. mannwhitneyu_var mwu fd dep v = Inr p"
      using mannwhitneyu_var_returns test by blast
  qed
  from mannwhitneyu_loop_completes [OF this, of Map.empty]
  show "\<exists>d. dic_mannwhitneyu mwu fd dep continuous_varnames = Inr d \<and> dom d = set continuous_varnames"
    using dep by (auto simp: dic_mannwhitneyu_def)
next
  assume one: "\<not> ((\<exists>r \<in> set (rows fd). r dep = Str ''Case'')
               \<and> (\<exists>r \<in> set (rows fd). r dep = Str ''Control''))
            \<and> continuous_varnames \<noteq> []"
  then obtain v vs where vs: "continuous_varnames = v # vs" by (cases continuous_varnames) auto
  have "v \<in> set (columns fd)" using cols vs by simp
  moreover have "length (groupby fd dep v) \<noteq> 2"
    using groups_of_filtered [OF filtered] one by simp
  ultimately have "mannwhitneyu_var mwu fd dep v = Inl ValueError"
    by (rule mannwhitneyu_var_not_two_groups)
  then show "dic_mannwhitneyu mwu fd dep continuous_varnames = Inl (ValueError, Map.empty)"
    using dep vs by (simp add: dic_mannwhitneyu_def)
qed

theorem mannwhitneyu_needs_both_groups_witness:
  "dic_mannwhitneyu (\<lambda>g1 g2. Inr (Fin 1)) one_group_cohort ''status'' [''x''] = Inl (ValueError, Map.empty)
   \<and> (\<exists>d. dic_mannwhitneyu (\<lambda>g1 g2. Inr (Fin 1)) two_group_cohort ''status'' [''x''] = Inr d
          \<and> dom d = {''x''})"
proof -
  have a: "\<forall>r \<in> set (rows one_group_cohort). r ''status'' = Str ''Case'' \<or> r ''status'' = Str ''Control''"
    by (simp add: one_group_cohort_def row_of_def)
  have b: "\<forall>r \<in> set (rows two_group_cohort). r ''status'' = Str ''Case'' \<or> r ''status'' = Str ''Control''"
    by (simp add: two_group_cohort_def row_of_def)
  have c: "\<forall>g1 g2 e. (\<lambda>g1 g2. Inr (Fin 1) :: exn + npfloat) g1 g2 = Inl e \<longrightarrow> e = ValueError"
    by simp
  have d1: "''status'' \<in> set (columns one_group_cohort)" "set [''x''] \<subseteq> set (columns one_group_cohort)"
    by (simp_all add: one_group_cohort_def)
  have d2: "''status'' \<in> set (columns two_group_cohort)" "set [''x''] \<subseteq> set (columns two_group_cohort)"
    by (simp_all add: two_group_cohort_def)
  have e1: "\<not> (\<exists>r \<in> set (rows one_group_cohort). r ''status'' = Str ''Control'')"
    by (simp add: one_group_cohort_def row_of_def)
  have e2: "(\<exists>r \<in> set (rows two_group_cohort). r ''status'' = Str ''Case'')
        \<and> (\<exists>r \<in> set (rows two_group_cohort). r ''status'' = Str ''Control'')"
    by (simp add: two_group_cohort_def row_of_def)
  show ?thesis
    using mannwhitneyu_needs_both_groups [OF a d1 c] mannwhitneyu_needs_both_groups [OF b d2 c] e1 e2
    by simp
qed

text \<open>
  C5 (the Mann-Whitney loop). A continuous variable that is missing for every subject of both
  groups leaves two empty samples. The loop has no test for that: it calls the
  Mann-Whitney test on the two empty samples and records the p-value the test returns,
  whatever it is; the result is NaN only when the test raises \<^verbatim>\<open>ValueError\<close> or returns NaN
  itself.
\<close>

theorem mannwhitneyu_tests_empty_samples:
  "dic_mannwhitneyu mwu fully_missing_cohort ''status'' [''x''] =
     (case mwu [] [] of
        Inr p \<Rightarrow> Inr [''x'' \<mapsto> p]
      | Inl e \<Rightarrow> if e = ValueError then Inr [''x'' \<mapsto> NaN] else Inl (e, Map.empty))"
  by (simp add: dic_mannwhitneyu_def mannwhitneyu_var_def groupby_def dropna_def
        fully_missing_cohort_def row_of_def unique_sorted_def cell_rank_def split: sum.splits)

section \<open>Properties of the Multiplicity Corrector and the Reporter\<close>

lemma corrector_result_of: "corrector joined = map (result_of (length joined)) joined"
  by (simp add: corrector_def result_of_def)

lemma plotted_result_of:
  "plotted (result_of n (name, p)) \<longleftrightarrow> (\<exists>x. p = Fin x \<and> 0 < x)"
  by (cases p) (simp_all add: plotted_def result_of_def)

lemma df_results_step:
  assumes "n \<noteq> 0"
  shows "df_results (result_of n (name, p) # rs) =
     (if plotted (result_of n (name, p)) then result_of n (name, p) # df_results rs else df_results rs)"
proof (cases p)
  case (Fin x)
  then show ?thesis using assms
    by (simp add: df_results_def result_of_def plotted_def np_div_def neg_log10_def replace_inf_def Let_def)
next
  case PInf
  then show ?thesis
    by (simp add: df_results_def result_of_def plotted_def np_div_def neg_log10_def replace_inf_def Let_def)
next
  case NInf
  then show ?thesis
    by (simp add: df_results_def result_of_def plotted_def np_div_def neg_log10_def replace_inf_def Let_def)
next
  case NaN
  then show ?thesis
    by (simp add: df_results_def result_of_def plotted_def np_div_def neg_log10_def replace_inf_def Let_def)
qed

lemma df_results_Nil: "df_results [] = []"
  by (simp add: df_results_def)

lemma df_results_map:
  "n \<noteq> 0 \<Longrightarrow> df_results (map (result_of n) xs) = filter plotted (map (result_of n) xs)"
proof (induction xs)
  case Nil
  then show ?case by (simp add: df_results_Nil)
next
  case (Cons a xs)
  obtain name p where a: "a = (name, p)" by (cases a)
  show ?case using Cons by (simp add: a df_results_step)
qed

lemma df_results_corrector:
  "df_results (corrector joined) = filter plotted (corrector joined)"
proof (cases joined)
  case Nil
  then show ?thesis by (simp add: corrector_def df_results_Nil)
next
  case (Cons a list)
  then have "length joined \<noteq> 0" by simp
  then show ?thesis unfolding corrector_result_of by (rule df_results_map)
qed

lemma corrector_row:
  "r \<in> set (corrector joined) \<longleftrightarrow>
     (\<exists>name p. (name, p) \<in> set joined \<and>
        r = \<lparr>varName = name, pvalues = p, p_adj = np_div p (length joined), log_p = neg_log10 p\<rparr>)"
  by (auto simp: corrector_def)

lemma valid_pvalues_le: "valid_pvalues joined \<le> length joined"
  by (simp add: valid_pvalues_def)

lemma valid_pvalues_eq_length:
  "valid_pvalues joined = length joined \<longleftrightarrow> (\<forall>r \<in> set joined. snd r \<noteq> NaN)"
proof (induction joined)
  case Nil
  then show ?case by (simp add: valid_pvalues_def)
next
  case (Cons a joined)
  have le: "length [r \<leftarrow> joined. snd r \<noteq> NaN] \<le> length joined" by simp
  show ?case
  proof (cases "snd a = NaN")
    case True
    then show ?thesis using le by (simp add: valid_pvalues_def del: length_filter_le)
  next
    case False
    then show ?thesis using Cons by (simp add: valid_pvalues_def)
  qed
qed

lemma alpha_eq_iff:
  assumes "joined \<noteq> []"
  shows "adjusted_alpha joined = Inr (0.05 / real (valid_pvalues joined))
     \<longleftrightarrow> (\<forall>r \<in> set joined. snd r \<noteq> NaN)"
proof -
  have pos: "0 < length joined" using assms by simp
  have "adjusted_alpha joined = Inr (0.05 / real (valid_pvalues joined))
     \<longleftrightarrow> (0.05::real) / real (length joined) = 0.05 / real (valid_pvalues joined)"
    using assms by (simp add: adjusted_alpha_def)
  also have "\<dots> \<longleftrightarrow> valid_pvalues joined = length joined"
  proof (cases "valid_pvalues joined = 0")
    case True
    then show ?thesis using pos by simp
  next
    case False
    then show ?thesis using pos by (auto simp: field_simps)
  qed
  finally show ?thesis by (simp add: valid_pvalues_eq_length)
qed

text \<open>
  What the corrector computes. The divisor is the number of rows of the joined variable
  dictionary, \<^verbatim>\<open>len(variablesDict["pvalues"])\<close>, and the rows with an undefined p-value count
  in it: the threshold is 0.05 divided by the number of rows, every defined p-value is
  divided by that same number, and an undefined p-value stays undefined in the table. The
  threshold is 0.05 over the number of valid p-values exactly when no row is undefined.
  Rows with an undefined p-value are left out of the rows given to the plot only.
\<close>

theorem corrector_divides_by_row_count:
  assumes "joined \<noteq> []"
  shows "adjusted_alpha joined = Inr (0.05 / real (length joined))
     \<and> length joined = valid_pvalues joined + length [r \<leftarrow> joined. snd r = NaN]
     \<and> map varName (corrector joined) = map fst joined
     \<and> map pvalues (corrector joined) = map snd joined
     \<and> (\<forall>r \<in> set (corrector joined). \<forall>p. pvalues r = Fin p
            \<longrightarrow> p_adj r = Fin (p / real (length joined)))
     \<and> (\<forall>r \<in> set (corrector joined). pvalues r = NaN \<longrightarrow> p_adj r = NaN)
     \<and> (adjusted_alpha joined = Inr (0.05 / real (valid_pvalues joined))
            \<longleftrightarrow> (\<forall>r \<in> set joined. snd r \<noteq> NaN))
     \<and> (\<forall>r \<in> set (df_results (corrector joined)). pvalues r \<noteq> NaN)"
proof (intro conjI)
  show "adjusted_alpha joined = Inr (0.05 / real (length joined))"
    using assms by (simp add: adjusted_alpha_def)
  show "length joined = valid_pvalues joined + length [r \<leftarrow> joined. snd r = NaN]"
    unfolding valid_pvalues_def using sum_length_filter_compl [of "\<lambda>r. snd r \<noteq> NaN" joined] by simp
  show "map varName (corrector joined) = map fst joined"
    by (simp add: corrector_def case_prod_unfold comp_def)
  show "map pvalues (corrector joined) = map snd joined"
    by (simp add: corrector_def case_prod_unfold comp_def)
  show "\<forall>r \<in> set (corrector joined). \<forall>p. pvalues r = Fin p \<longrightarrow> p_adj r = Fin (p / real (length joined))"
    using assms by (auto simp: corrector_row np_div_def)
  show "\<forall>r \<in> set (corrector joined). pvalues r = NaN \<longrightarrow> p_adj r = NaN"
    by (auto simp: corrector_row np_div_def)
  show "adjusted_alpha joined = Inr (0.05 / real (valid_pvalues joined))
            \<longleftrightarrow> (\<forall>r \<in> set joined. snd r \<noteq> NaN)"
    by (rule alpha_eq_iff [OF assms])
  show "\<forall>r \<in> set (df_results (corrector joined)). pvalues r \<noteq> NaN"
    by (auto simp: df_results_corrector plotted_def)
qed

theorem corrector_divides_by_row_count_witness:
  "example_joined \<noteq> []
   \<and> adjusted_alpha example_joined = Inr (0.05 / 3)
   \<and> valid_pvalues example_joined = 2
   \<and> map varName (corrector example_joined) = [''a'', ''b'', ''c'']"
  using corrector_divides_by_row_count [of example_joined]
  by (simp add: example_joined_def valid_pvalues_def)

text \<open>
  C1. The notebooks announce, in the cell before the corrector, a threshold adjusted
  \<^verbatim>\<open>according to the number of test performed\<close>, and the code divides by the number of rows
  instead. With one variable tested, at p = 0.01, and one on which no test was run (NaN),
  one test was performed and one p-value is valid, but the threshold is 0.05 / 2 and the
  valid p-value is halved; the variable without a test is still a row of the result table.
\<close>

theorem adjusted_alpha_counts_undefined_rows:
  "valid_pvalues [(''a'', Fin (1/100)), (''b'', NaN)] = 1
   \<and> adjusted_alpha [(''a'', Fin (1/100)), (''b'', NaN)] = Inr (0.05 / 2)
   \<and> adjusted_alpha [(''a'', Fin (1/100)), (''b'', NaN)]
        \<noteq> Inr (0.05 / real (valid_pvalues [(''a'', Fin (1/100)), (''b'', NaN)]))
   \<and> map p_adj (corrector [(''a'', Fin (1/100)), (''b'', NaN)]) = [Fin ((1/100) / 2), NaN]
   \<and> map varName (corrector [(''a'', Fin (1/100)), (''b'', NaN)]) = [''a'', ''b'']"
  by (simp add: valid_pvalues_def adjusted_alpha_def corrector_def np_div_def)

text \<open>
  C6. A row whose p-value is undefined (NaN) has NaN as its adjusted p-value and as its
  \<^verbatim>\<open>log_p\<close>, never a number, and is not among the rows given to the Manhattan plot; every
  row given to the plot is a row of the table whose variable has a defined p-value.
\<close>

theorem undefined_results_stay_missing:
  "(\<forall>r \<in> set (corrector joined). pvalues r = NaN
       \<longrightarrow> p_adj r = NaN \<and> log_p r = NaN \<and> r \<notin> set (df_results (corrector joined)))
   \<and> (\<forall>r \<in> set (df_results (corrector joined)).
         r \<in> set (corrector joined) \<and> (\<exists>p. (varName r, Fin p) \<in> set joined \<and> pvalues r = Fin p))"
proof (intro conjI ballI impI)
  fix r assume r: "r \<in> set (corrector joined)" and u: "pvalues r = NaN"
  from r u show "p_adj r = NaN" by (auto simp: corrector_row np_div_def)
  from r u show "log_p r = NaN" by (auto simp: corrector_row neg_log10_def)
  from u show "r \<notin> set (df_results (corrector joined))"
    by (simp add: df_results_corrector plotted_def)
next
  fix r assume r: "r \<in> set (df_results (corrector joined))"
  then show "r \<in> set (corrector joined)" by (simp add: df_results_corrector)
  from r have "r \<in> set (corrector joined)" and "plotted r" by (simp_all add: df_results_corrector)
  then show "\<exists>p. (varName r, Fin p) \<in> set joined \<and> pvalues r = Fin p"
    by (auto simp: corrector_row plotted_def split: npfloat.splits)
qed

theorem undefined_results_stay_missing_witness:
  "map varName (corrector example_joined) = [''a'', ''b'', ''c'']
   \<and> map p_adj (corrector example_joined) = [Fin ((1/100) / 3), NaN, Fin 0]
   \<and> map varName (df_results (corrector example_joined)) = [''a'']"
  using undefined_results_stay_missing [of example_joined]
  by (simp add: example_joined_def corrector_def np_div_def neg_log10_def df_results_def replace_inf_def)

text \<open>
  C9. A row whose p-value is exactly 0 has \<^verbatim>\<open>log_p\<close> plus infinity, which
  \<^verbatim>\<open>replace([np.inf, -np.inf], np.nan)\<close> turns into NaN, and the row is dropped from the rows
  given to the plot, as a row with an undefined p-value is: the plot gets exactly the rows
  with a finite, positive p-value.
\<close>

theorem zero_pvalue_dropped_from_plot:
  "(\<forall>r \<in> set (corrector joined). pvalues r = Fin 0
       \<longrightarrow> log_p r = PInf \<and> replace_inf (log_p r) = NaN
           \<and> r \<notin> set (df_results (corrector joined)))
   \<and> (\<forall>r \<in> set (corrector joined). pvalues r = NaN
       \<longrightarrow> r \<notin> set (df_results (corrector joined)))
   \<and> df_results (corrector joined)
        = [r \<leftarrow> corrector joined. \<exists>p. pvalues r = Fin p \<and> 0 < p]"
proof (intro conjI ballI impI)
  fix r assume r: "r \<in> set (corrector joined)" and z: "pvalues r = Fin 0"
  from r z show "log_p r = PInf" by (auto simp: corrector_row neg_log10_def)
  then show "replace_inf (log_p r) = NaN" by (simp add: replace_inf_def)
  from z show "r \<notin> set (df_results (corrector joined))"
    by (simp add: df_results_corrector plotted_def)
next
  fix r :: result_row assume "pvalues r = NaN"
  then show "r \<notin> set (df_results (corrector joined))"
    by (simp add: df_results_corrector plotted_def)
next
  have "plotted = (\<lambda>r. \<exists>p. pvalues r = Fin p \<and> 0 < p)"
    by (rule ext) (simp add: plotted_def split: npfloat.splits)
  then show "df_results (corrector joined) = [r \<leftarrow> corrector joined. \<exists>p. pvalues r = Fin p \<and> 0 < p]"
    by (simp add: df_results_corrector)
qed

theorem zero_pvalue_dropped_from_plot_witness:
  "map pvalues (corrector example_joined) = [Fin (1/100), NaN, Fin 0]
   \<and> map varName (df_results (corrector example_joined)) = [''a'']"
proof -
  have e: "df_results (corrector example_joined)
        = [r \<leftarrow> corrector example_joined. \<exists>p. pvalues r = Fin p \<and> 0 < p]"
    using zero_pvalue_dropped_from_plot [of example_joined] by blast
  have p: "(\<lambda>r. \<exists>p. pvalues r = Fin p \<and> 0 < p) = plotted"
    by (rule ext) (simp add: plotted_def split: npfloat.splits)
  show ?thesis
    unfolding e p
    by (simp add: example_joined_def corrector_def plotted_def np_div_def neg_log10_def)
qed

section \<open>Contingency tables and the Fisher loop\<close>

lemma length_unique_sorted_observed:
  "Missing \<notin> set xs \<Longrightarrow> length (unique_sorted xs) = card (set xs)"
  by (simp add: length_unique_sorted)

lemma unique_sorted_Nil_iff: "unique_sorted xs = [] \<longleftrightarrow> set xs \<subseteq> {Missing}"
proof -
  have "unique_sorted xs = [] \<longleftrightarrow> set (unique_sorted xs) = {}" by simp
  also have "\<dots> \<longleftrightarrow> set xs \<subseteq> {Missing}" by (auto simp: set_unique_sorted)
  finally show ?thesis .
qed

lemma shape_crosstab:
  "shape (crosstab a b) =
     (card (fst ` set [p \<leftarrow> zip a b. fst p \<noteq> Missing \<and> snd p \<noteq> Missing]),
      card (snd ` set [p \<leftarrow> zip a b. fst p \<noteq> Missing \<and> snd p \<noteq> Missing]))"
proof -
  define pairs where "pairs = [p \<leftarrow> zip a b. fst p \<noteq> Missing \<and> snd p \<noteq> Missing]"
  have ma: "Missing \<notin> set (map fst pairs)" and mb: "Missing \<notin> set (map snd pairs)"
    by (auto simp: pairs_def)
  have la: "length (unique_sorted (map fst pairs)) = card (fst ` set pairs)"
    using length_unique_sorted_observed [OF ma] by simp
  have lb: "length (unique_sorted (map snd pairs)) = card (snd ` set pairs)"
    using length_unique_sorted_observed [OF mb] by simp
  have ct: "crosstab a b =
      map (\<lambda>x. map (\<lambda>y. count_list pairs (x, y)) (unique_sorted (map snd pairs)))
          (unique_sorted (map fst pairs))"
    by (simp add: crosstab_def pairs_def Let_def)
  have "shape (crosstab a b) =
      (length (unique_sorted (map fst pairs)), length (unique_sorted (map snd pairs)))"
  proof (cases pairs)
    case Nil
    then show ?thesis by (simp add: ct shape_def unique_sorted_def)
  next
    case (Cons p ps)
    then have "fst p \<in> set (map fst pairs)" by simp
    with ma have "\<not> set (map fst pairs) \<subseteq> {Missing}" by (auto simp del: set_map)
    then have "unique_sorted (map fst pairs) \<noteq> []"
      by (simp only: unique_sorted_Nil_iff not_False_eq_True)
    then obtain k ks where ks: "unique_sorted (map fst pairs) = k # ks"
      by (cases "unique_sorted (map fst pairs)") auto
    show ?thesis unfolding ct shape_def ks by simp
  qed
  then have "shape (crosstab a b) = (card (fst ` set pairs), card (snd ` set pairs))"
    by (simp only: la lb)
  then show ?thesis by (simp only: pairs_def)
qed

lemma zip_columns:
  "zip (map (\<lambda>r. r var) rs) (map (\<lambda>r. r dep) rs) = map (\<lambda>r. (r var, r dep)) rs"
  by (induction rs) simp_all

lemma observed_pairs:
  "[p \<leftarrow> map (\<lambda>r. (r var, r dep)) rs. fst p \<noteq> Missing \<and> snd p \<noteq> Missing]
     = map (\<lambda>r. (r var, r dep)) [r \<leftarrow> rs. r var \<noteq> Missing \<and> r dep \<noteq> Missing]"
  by (induction rs) simp_all

lemma shape_crosstab_columns:
  "shape (crosstab (map (\<lambda>r. r var) rs) (map (\<lambda>r. r dep) rs)) =
     (card ((\<lambda>r. r var) ` {r \<in> set rs. r var \<noteq> Missing \<and> r dep \<noteq> Missing}),
      card ((\<lambda>r. r dep) ` {r \<in> set rs. r var \<noteq> Missing \<and> r dep \<noteq> Missing}))"
proof -
  have s: "set [r \<leftarrow> rs. r var \<noteq> Missing \<and> r dep \<noteq> Missing]
      = {r \<in> set rs. r var \<noteq> Missing \<and> r dep \<noteq> Missing}" by simp
  show ?thesis
    unfolding shape_crosstab zip_columns observed_pairs
    by (simp only: set_map image_image fst_conv snd_conv s)
qed

lemma fisher_var_shape:
  assumes "var \<in> set (columns fd)" and "dep \<in> set (columns fd)"
  shows "fisher_var pvalue fd dep var =
     (let t = crosstab (map (\<lambda>r. r var) (rows fd)) (map (\<lambda>r. r dep) (rows fd))
      in if shape t = (1, 2) then Inr NaN
         else if shape t = (2, 2) then Inr (pvalue t) else Inl ValueError)"
  using assms by (simp add: fisher_var_def getcol_def fisher_exact_def Let_def)

lemma fisher_loop_filter:
  "fisher_loop pvalue fd dep names d =
     fisher_loop pvalue fd dep
       [n \<leftarrow> names. case n of None \<Rightarrow> False | Some v \<Rightarrow> v \<in> set (columns fd)] d"
proof (induction names arbitrary: d)
  case Nil
  then show ?case by simp
next
  case (Cons n names)
  show ?case
  proof (cases n)
    case None
    then show ?thesis using Cons.IH by simp
  next
    case (Some v)
    show ?thesis
    proof (cases "v \<in> set (columns fd)")
      case False
      then show ?thesis using Some Cons.IH by simp
    next
      case True
      show ?thesis
      proof (cases "fisher_var pvalue fd dep v")
        case (Inl e)
        then show ?thesis using Some True by simp
      next
        case (Inr p)
        have "fisher_loop pvalue fd dep (n # names) d
            = fisher_loop pvalue fd dep names (d(v \<mapsto> p))"
          using Some True Inr by simp
        also have "\<dots> = fisher_loop pvalue fd dep
            [n \<leftarrow> names. case n of None \<Rightarrow> False | Some v \<Rightarrow> v \<in> set (columns fd)] (d(v \<mapsto> p))"
          by (rule Cons.IH)
        also have "\<dots> = fisher_loop pvalue fd dep
            [n \<leftarrow> n # names. case n of None \<Rightarrow> False | Some v \<Rightarrow> v \<in> set (columns fd)] d"
          using Some True Inr by simp
        finally show ?thesis .
      qed
    qed
  qed
qed

lemma fisher_loop_untouched:
  "v \<notin> set (columns fd) \<Longrightarrow> final_dic (fisher_loop pvalue fd dep names d) v = d v"
proof (induction names arbitrary: d)
  case Nil
  then show ?case by (simp add: final_dic_def)
next
  case (Cons n names)
  show ?case
  proof (cases n)
    case None
    then show ?thesis using Cons by simp
  next
    case (Some w)
    show ?thesis
    proof (cases "w \<in> set (columns fd)")
      case False
      then show ?thesis using Some Cons by simp
    next
      case True
      with Cons.prems have ne: "w \<noteq> v" by auto
      show ?thesis
      proof (cases "fisher_var pvalue fd dep w")
        case (Inl e)
        then show ?thesis using Some True by (simp add: final_dic_def)
      next
        case (Inr p)
        then have "fisher_loop pvalue fd dep (n # names) d
            = fisher_loop pvalue fd dep names (d(w \<mapsto> p))"
          using Some True by simp
        moreover have "final_dic (fisher_loop pvalue fd dep names (d(w \<mapsto> p))) v = (d(w \<mapsto> p)) v"
          by (rule Cons.IH [OF Cons.prems])
        moreover have "(d(w \<mapsto> p)) v = d v" using ne by simp
        ultimately show ?thesis by (simp only:)
      qed
    qed
  qed
qed

lemma listed_Cons_Some:
  "w \<in> set (columns fd) \<Longrightarrow>
   {v. Some v \<in> set (Some w # names) \<and> v \<in> set (columns fd)}
     = insert w {v. Some v \<in> set names \<and> v \<in> set (columns fd)}"
  by auto

lemma listed_Cons_skip:
  "n = None \<or> (\<exists>w. n = Some w \<and> w \<notin> set (columns fd)) \<Longrightarrow>
   {v. Some v \<in> set (n # names) \<and> v \<in> set (columns fd)}
     = {v. Some v \<in> set names \<and> v \<in> set (columns fd)}"
  by auto

lemma subset_insert_step: "A \<subseteq> B \<union> S \<Longrightarrow> B = insert w D \<Longrightarrow> A \<subseteq> D \<union> insert w S"
  by blast

lemma eq_insert_step: "A = B \<union> S \<Longrightarrow> B = insert w D \<Longrightarrow> A = D \<union> insert w S"
  by blast

lemma fisher_loop_skip:
  "n = None \<or> (\<exists>w. n = Some w \<and> w \<notin> set (columns fd)) \<Longrightarrow>
   fisher_loop pvalue fd dep (n # names) d = fisher_loop pvalue fd dep names d"
  by (cases n) simp_all

lemma fisher_loop_dom:
  "dom (final_dic (fisher_loop pvalue fd dep names d))
      \<subseteq> dom d \<union> {v. Some v \<in> set names \<and> v \<in> set (columns fd)}"
proof (induction names arbitrary: d)
  case Nil
  then show ?case by (simp add: final_dic_def)
next
  case (Cons n names)
  show ?case
  proof (cases "n = None \<or> (\<exists>w. n = Some w \<and> w \<notin> set (columns fd))")
    case True
    show ?thesis
      using Cons.IH [of d] by (simp only: listed_Cons_skip [OF True] fisher_loop_skip [OF True])
  next
    case False
    then obtain w where n: "n = Some w" and w: "w \<in> set (columns fd)" by auto
    show ?thesis
    proof (cases "fisher_var pvalue fd dep w")
      case (Inl e)
      then have "final_dic (fisher_loop pvalue fd dep (n # names) d) = d"
        using n w by (simp add: final_dic_def)
      then show ?thesis by (simp only: Un_upper1)
    next
      case (Inr p)
      then have step: "fisher_loop pvalue fd dep (Some w # names) d
          = fisher_loop pvalue fd dep names (d(w \<mapsto> p))"
        using w by simp
      have "dom (final_dic (fisher_loop pvalue fd dep names (d(w \<mapsto> p))))
          \<subseteq> dom (d(w \<mapsto> p)) \<union> {v. Some v \<in> set names \<and> v \<in> set (columns fd)}"
        by (rule Cons.IH)
      moreover have "dom (d(w \<mapsto> p)) = insert w (dom d)" by simp
      ultimately show ?thesis
        unfolding n step listed_Cons_Some [OF w] by (rule subset_insert_step)
    qed
  qed
qed

lemma fisher_loop_dom_done:
  "fisher_loop pvalue fd dep names d = Inr d'
     \<Longrightarrow> dom d' = dom d \<union> {v. Some v \<in> set names \<and> v \<in> set (columns fd)}"
proof (induction names arbitrary: d)
  case Nil
  then show ?case by simp
next
  case (Cons n names)
  show ?case
  proof (cases "n = None \<or> (\<exists>w. n = Some w \<and> w \<notin> set (columns fd))")
    case True
    have "fisher_loop pvalue fd dep names d = Inr d'"
      using Cons.prems by (simp only: fisher_loop_skip [OF True])
    from Cons.IH [OF this] show ?thesis by (simp only: listed_Cons_skip [OF True])
  next
    case False
    then obtain w where n: "n = Some w" and w: "w \<in> set (columns fd)" by auto
    show ?thesis
    proof (cases "fisher_var pvalue fd dep w")
      case (Inl e)
      then show ?thesis using n w Cons.prems by simp
    next
      case (Inr p)
      then have "fisher_loop pvalue fd dep names (d(w \<mapsto> p)) = Inr d'"
        using n w Cons.prems by simp
      from Cons.IH [OF this]
      have "dom d' = dom (d(w \<mapsto> p)) \<union> {v. Some v \<in> set names \<and> v \<in> set (columns fd)}" .
      moreover have "dom (d(w \<mapsto> p)) = insert w (dom d)" by simp
      ultimately show ?thesis
        unfolding n listed_Cons_Some [OF w] by (rule eq_insert_step)
    qed
  qed
qed

text \<open>
  C10. The Fisher loop gives the same outcome as the loop over the list from which every
  entry that is not a string, or is not a column of the cohort matrix, has been taken out;
  a name that is not a column has, after the loop, the entry it had before (none, when the
  loop starts on the empty dictionary); and every key of \<^verbatim>\<open>dic_fisher\<close> is a listed string
  that is a column.
\<close>

theorem fisher_loop_skips_without_record:
  "fisher_loop pvalue fd dep names d =
     fisher_loop pvalue fd dep
       [n \<leftarrow> names. case n of None \<Rightarrow> False | Some v \<Rightarrow> v \<in> set (columns fd)] d
   \<and> (\<forall>v. v \<notin> set (columns fd) \<longrightarrow> final_dic (fisher_loop pvalue fd dep names d) v = d v)
   \<and> dom (final_dic (dic_fisher pvalue fd dep names))
        \<subseteq> {v. Some v \<in> set names \<and> v \<in> set (columns fd)}"
proof (intro conjI allI impI)
  show "fisher_loop pvalue fd dep names d =
     fisher_loop pvalue fd dep
       [n \<leftarrow> names. case n of None \<Rightarrow> False | Some v \<Rightarrow> v \<in> set (columns fd)] d"
    by (rule fisher_loop_filter)
next
  fix v assume "v \<notin> set (columns fd)"
  then show "final_dic (fisher_loop pvalue fd dep names d) v = d v"
    by (rule fisher_loop_untouched)
next
  show "dom (final_dic (dic_fisher pvalue fd dep names))
        \<subseteq> {v. Some v \<in> set names \<and> v \<in> set (columns fd)}"
    using fisher_loop_dom [of pvalue fd dep names Map.empty] by (simp add: dic_fisher_def)
qed

theorem fisher_loop_skips_without_record_witness:
  "dic_fisher (\<lambda>t. Fin 1) two_group_cohort ''status'' [None, Some ''ghost'', Some ''smoker_yes'']
     = dic_fisher (\<lambda>t. Fin 1) two_group_cohort ''status'' [Some ''smoker_yes'']
   \<and> final_dic (dic_fisher (\<lambda>t. Fin 1) two_group_cohort ''status''
         [None, Some ''ghost'', Some ''smoker_yes'']) ''ghost'' = None"
  using fisher_loop_skips_without_record
     [of "\<lambda>t. Fin 1" two_group_cohort "''status''" "[None, Some ''ghost'', Some ''smoker_yes'']" Map.empty]
  by (simp add: dic_fisher_def two_group_cohort_def)

text \<open>
  C2 as stated fails on the Fisher loop: of three listed entries, one a column of the cohort
  matrix, one a name that is no column and one that is not a string, only the first gets a
  result record.
\<close>

theorem fisher_skipped_variable_has_no_record:
  "dic_fisher (\<lambda>t. Fin 1) two_group_cohort ''status'' [Some ''smoker_yes'', Some ''ghost'', None]
     = Inr [''smoker_yes'' \<mapsto> Fin 1]"
  by (simp add: dic_fisher_def fisher_var_def getcol_def fisher_exact_def crosstab_def shape_def
        two_group_cohort_def row_of_def unique_sorted_def cell_rank_def)

section \<open>The likelihood-ratio loop and the independence of the results\<close>

lemma llr_var_zero_rows:
  assumes "dep \<in> set (columns facts)" and "v \<in> set (columns facts)"
      and "dropna_any [dep, v] (rows facts) = []"
  shows "llr_var logit fit vd facts dep v = Inr NaN"
  using assms by (simp add: llr_var_def)

lemma filter_fst_distinct:
  "distinct (map fst vd) \<Longrightarrow> (v, c) \<in> set vd \<Longrightarrow> [row \<leftarrow> vd. fst row = v] = [(v, c)]"
proof (induction vd)
  case Nil
  then show ?case by simp
next
  case (Cons a vd)
  show ?case
  proof (cases "a = (v, c)")
    case True
    have "v \<notin> fst ` set vd" using Cons.prems(1) True by simp
    then have "[row \<leftarrow> vd. fst row = v] = []" by (auto simp: filter_empty_conv)
    then show ?thesis using True by simp
  next
    case False
    with Cons.prems have in_tl: "(v, c) \<in> set vd" by simp
    then have "v \<in> fst ` set vd" by force
    with Cons.prems(1) have "fst a \<noteq> v" by auto
    then show ?thesis using Cons.IH in_tl Cons.prems(1) by simp
  qed
qed


lemma llr_var_returns:
  assumes "dep \<in> set (columns facts)" and "v \<in> set (columns facts)"
      and "v \<in> fst ` set vd" and "distinct (map fst vd)"
      and "\<forall>x. \<exists>m. logit x = Inr m"
      and "\<forall>m e. fit m = Inl e \<longrightarrow> e = LinAlgError \<or> e = PerfectSeparationError"
  shows "\<exists>p. llr_var logit fit vd facts dep v = Inr p"
proof (cases "dropna_any [dep, v] (rows facts) = []")
  case True
  then show ?thesis using assms(1,2) by (simp add: llr_var_zero_rows)
next
  case False
  from assms(3) obtain c where "(v, c) \<in> set vd" by auto
  from filter_fst_distinct [OF assms(4) this]
  have c: "[row \<leftarrow> vd. fst row = v] = [(v, c)]" .
  from assms(5) obtain m where m: "logit (llr_design c facts dep v) = Inr m" by blast
  show ?thesis
  proof (cases "fit m")
    case (Inl e)
    with assms(6) have "e = LinAlgError \<or> e = PerfectSeparationError" by blast
    then show ?thesis using assms(1,2) False c m Inl by (auto simp: llr_var_def)
  next
    case (Inr p)
    then show ?thesis using assms(1,2) False c m by (simp add: llr_var_def)
  qed
qed

lemma llr_loop_completes:
  assumes "\<forall>v \<in> set vars. \<exists>p. llr_var logit fit vd facts dep v = Inr p"
  shows "\<exists>d'. llr_loop logit fit vd facts dep vars d = Inr d'
     \<and> dom d' = dom d \<union> set vars
     \<and> (\<forall>v \<in> set vars. llr_var logit fit vd facts dep v = Inr (the (d' v)))
     \<and> (\<forall>k. k \<notin> set vars \<longrightarrow> d' k = d k)"
  using assms
proof (induction vars arbitrary: d)
  case Nil
  then show ?case by simp
next
  case (Cons v vs)
  from Cons.prems obtain p where p: "llr_var logit fit vd facts dep v = Inr p" by auto
  from Cons.prems have rest: "\<forall>w \<in> set vs. \<exists>q. llr_var logit fit vd facts dep w = Inr q" by simp
  from Cons.IH [OF rest, of "d(v \<mapsto> p)"] obtain d' where
    run: "llr_loop logit fit vd facts dep vs (d(v \<mapsto> p)) = Inr d'"
    and dm: "dom d' = dom (d(v \<mapsto> p)) \<union> set vs"
    and vals: "\<forall>w \<in> set vs. llr_var logit fit vd facts dep w = Inr (the (d' w))"
    and frame: "\<forall>k. k \<notin> set vs \<longrightarrow> d' k = (d(v \<mapsto> p)) k"
    by blast
  have "llr_loop logit fit vd facts dep (v # vs) d = Inr d'" using p run by simp
  moreover have "dom d' = dom d \<union> set (v # vs)" using dm by auto
  moreover have "\<forall>w \<in> set (v # vs). llr_var logit fit vd facts dep w = Inr (the (d' w))"
  proof
    fix w assume w: "w \<in> set (v # vs)"
    show "llr_var logit fit vd facts dep w = Inr (the (d' w))"
    proof (cases "w \<in> set vs")
      case True then show ?thesis using vals by simp
    next
      case False
      with w have "w = v" by simp
      with False frame p show ?thesis by simp
    qed
  qed
  moreover have "\<forall>k. k \<notin> set (v # vs) \<longrightarrow> d' k = d k" using frame by simp
  ultimately show ?case by blast
qed

lemma llr_loop_dom:
  "dom (final_dic (llr_loop logit fit vd facts dep vars d)) \<subseteq> dom d \<union> set vars"
proof (induction vars arbitrary: d)
  case Nil
  then show ?case by (simp add: final_dic_def)
next
  case (Cons v vs)
  show ?case
  proof (cases "llr_var logit fit vd facts dep v")
    case (Inl e)
    then show ?thesis by (auto simp: final_dic_def)
  next
    case (Inr p)
    then have step: "llr_loop logit fit vd facts dep (v # vs) d
        = llr_loop logit fit vd facts dep vs (d(v \<mapsto> p))" by simp
    have "dom (final_dic (llr_loop logit fit vd facts dep vs (d(v \<mapsto> p))))
        \<subseteq> dom (d(v \<mapsto> p)) \<union> set vs" by (rule Cons.IH)
    moreover have "dom (d(v \<mapsto> p)) = insert v (dom d)" by simp
    ultimately have "dom (final_dic (llr_loop logit fit vd facts dep vs (d(v \<mapsto> p))))
        \<subseteq> dom d \<union> insert v (set vs)" by (rule subset_insert_step)
    then show ?thesis unfolding step by simp
  qed
qed







lemma fisher_var_exn:
  "fisher_var pvalue fd dep var = Inl e \<Longrightarrow> e = KeyError \<or> e = ValueError"
  by (auto simp: fisher_var_def getcol_def fisher_exact_def split: if_splits)

lemma fisher_loop_exn:
  "fisher_loop pvalue fd dep names d = Inl (e, d') \<Longrightarrow> e = KeyError \<or> e = ValueError"
proof (induction names arbitrary: d)
  case Nil
  then show ?case by simp
next
  case (Cons n names)
  show ?case
  proof (cases "n = None \<or> (\<exists>w. n = Some w \<and> w \<notin> set (columns fd))")
    case True
    have "fisher_loop pvalue fd dep names d = Inl (e, d')"
      using Cons.prems by (simp only: fisher_loop_skip [OF True])
    then show ?thesis by (rule Cons.IH)
  next
    case False
    then obtain v where n: "n = Some v" and v: "v \<in> set (columns fd)" by auto
    show ?thesis
    proof (cases "fisher_var pvalue fd dep v")
      case (Inl e')
      then have "e' = e" using Cons.prems n v by simp
      with Inl show ?thesis using fisher_var_exn by blast
    next
      case (Inr p)
      then have "fisher_loop pvalue fd dep names (d(v \<mapsto> p)) = Inl (e, d')"
        using Cons.prems n v by simp
      then show ?thesis by (rule Cons.IH)
    qed
  qed
qed

lemma dic_fisher_101_eq:
  "dic_fisher_101 pvalue fd dep names = dic_fisher pvalue fd dep (take 500 names)"
proof (cases "fisher_loop pvalue fd dep (take 500 names) Map.empty")
  case (Inl a)
  obtain e d where a: "a = (e, d)" by (cases a)
  with Inl have "e = KeyError \<or> e = ValueError" using fisher_loop_exn by blast
  then have "e \<noteq> AttributeError" by auto
  then show ?thesis using Inl a by (simp add: dic_fisher_101_def dic_fisher_def)
next
  case (Inr d)
  then show ?thesis by (simp add: dic_fisher_101_def dic_fisher_def)
qed

section \<open>Dummy columns and the Fisher loop on them\<close>

lemma distinct_unique_sorted: "distinct (unique_sorted xs)"
  by (simp add: unique_sorted_def)

lemma dummy_columns_one_level:
  assumes "card ((\<lambda>r. r v) ` set (rows facts) - {Missing}) \<le> 1"
  shows "dummy_columns str_of facts v = []"
proof -
  have "length (unique_sorted (map (\<lambda>r. r v) (rows facts))) \<le> 1"
    using assms by (simp add: length_unique_sorted)
  then have "tl (unique_sorted (map (\<lambda>r. r v) (rows facts))) = []"
    by (cases "unique_sorted (map (\<lambda>r. r v) (rows facts))") simp_all
  then show ?thesis by (simp add: dummy_columns_def)
qed

lemma dummy_columns_levels:
  assumes "d \<in> set (dummy_columns str_of facts v)"
  shows "\<exists>k. d = (v @ ''_'' @ str_of k, v, k)
     \<and> (\<exists>r \<in> set (rows facts). r v = k) \<and> (\<exists>r \<in> set (rows facts). r v \<noteq> k)
     \<and> 2 \<le> card ((\<lambda>r. r v) ` set (rows facts) - {Missing})"
proof -
  let ?us = "unique_sorted (map (\<lambda>r. r v) (rows facts))"
  from assms obtain k where d: "d = (v @ ''_'' @ str_of k, v, k)" and k: "k \<in> set (tl ?us)"
    by (auto simp: dummy_columns_def)
  from k obtain k0 rest where us: "?us = k0 # rest" by (cases ?us) auto
  with k have kr: "k \<in> set rest" by simp
  have "distinct ?us" by (rule distinct_unique_sorted)
  with us kr have ne: "k0 \<noteq> k" by auto
  have "set ?us = set (map (\<lambda>r. r v) (rows facts)) - {Missing}" by (rule set_unique_sorted)
  with us kr have "k \<in> set (map (\<lambda>r. r v) (rows facts))" "k0 \<in> set (map (\<lambda>r. r v) (rows facts))"
    by auto
  then have a: "\<exists>r \<in> set (rows facts). r v = k" and "\<exists>r \<in> set (rows facts). r v = k0" by auto
  with ne have b: "\<exists>r \<in> set (rows facts). r v \<noteq> k" by auto
  have "2 \<le> length ?us" using us kr by (cases rest) auto
  then have c: "2 \<le> card ((\<lambda>r. r v) ` set (rows facts) - {Missing})"
    by (simp add: length_unique_sorted)
  from d a b c show ?thesis by blast
qed

lemma find_distinct_fst:
  "distinct (map fst xs) \<Longrightarrow> d \<in> set xs \<Longrightarrow> find (\<lambda>x. fst x = fst d) xs = Some d"
proof (induction xs)
  case Nil
  then show ?case by simp
next
  case (Cons a xs)
  show ?case
  proof (cases "a = d")
    case True
    then show ?thesis by simp
  next
    case False
    with Cons.prems have dx: "d \<in> set xs" by simp
    then have m: "fst d \<in> fst ` set xs" by (rule imageI)
    have "fst a \<notin> fst ` set xs" using Cons.prems(1) by simp
    with m have "fst a \<noteq> fst d" by (metis)
    then show ?thesis using Cons.IH dx Cons.prems(1) by simp
  qed
qed

lemma find_none_fst:
  "c \<notin> fst ` set xs \<Longrightarrow> find (\<lambda>x. fst x = c) xs = None"
  by (induction xs) auto

lemma dummy_row_dummy:
  assumes "distinct (map fst dums)" and "(n, v, k) \<in> set dums"
  shows "dummy_row dums r n = (if r v = k then Num 1 else Num 0)"
  using find_distinct_fst [OF assms] by (simp add: dummy_row_def)

lemma dummy_row_kept:
  assumes "c \<notin> fst ` set dums"
  shows "dummy_row dums r c = r c"
  using find_none_fst [OF assms] by (simp add: dummy_row_def)

lemma get_dummies_frame_Inr:
  assumes "get_dummies_frame str_of facts cats = Inr fd"
  shows "columns fd = [c \<leftarrow> columns facts. c \<notin> set cats]
            @ map fst (concat (map (dummy_columns str_of facts) cats))"
    and "rows fd = map (dummy_row (concat (map (dummy_columns str_of facts) cats))) (rows facts)"
    and "set cats \<subseteq> set (columns facts)"
  using assms by (auto simp: get_dummies_frame_def Let_def split: if_splits)

lemma indicator_image:
  assumes "\<exists>r \<in> set rs. r v = k" and "\<exists>r \<in> set rs. r v \<noteq> k"
  shows "(\<lambda>r. if r v = k then Num 1 else Num 0) ` set rs = {Num 0, Num 1}"
proof (intro equalityI subsetI)
  fix x assume "x \<in> (\<lambda>r. if r v = k then Num 1 else Num 0) ` set rs"
  then show "x \<in> {Num 0, Num 1}" by auto
next
  fix x assume x: "x \<in> {Num 0, Num 1}"
  from assms obtain r1 r2 where r1: "r1 \<in> set rs" "r1 v = k" and r2: "r2 \<in> set rs" "r2 v \<noteq> k"
    by auto
  have one: "Num 1 \<in> (\<lambda>r. if r v = k then Num 1 else Num 0) ` set rs"
    by (rule image_eqI [OF _ r1(1)]) (simp add: r1(2))
  have zero: "Num 0 \<in> (\<lambda>r. if r v = k then Num 1 else Num 0) ` set rs"
    by (rule image_eqI [OF _ r2(1)]) (simp add: r2(2))
  from x one zero show "x \<in> (\<lambda>r. if r v = k then Num 1 else Num 0) ` set rs" by auto
qed

lemma dummy_table_shape:
  assumes fd: "get_dummies_frame str_of facts cats = Inr fd"
      and dist: "distinct (columns fd)"
      and dep: "dep \<in> set (columns facts)" "dep \<notin> set cats"
      and d: "d \<in> set (concat (map (dummy_columns str_of facts) cats))"
      and obs: "\<forall>r \<in> set (rows facts). r dep \<noteq> Missing"
  shows "shape (crosstab (map (\<lambda>r. r (fst d)) (rows fd)) (map (\<lambda>r. r dep) (rows fd)))
           = (2, card ((\<lambda>r. r dep) ` set (rows facts)))"
proof -
  define dums where "dums = concat (map (dummy_columns str_of facts) cats)"
  define kept where "kept = [c \<leftarrow> columns facts. c \<notin> set cats]"
  have cols: "columns fd = kept @ map fst dums"
    using get_dummies_frame_Inr(1) [OF fd] by (simp only: dums_def kept_def)
  have rws: "rows fd = map (dummy_row dums) (rows facts)"
    using get_dummies_frame_Inr(2) [OF fd] by (simp only: dums_def)
  have dd: "distinct (map fst dums)" and disj: "set kept \<inter> set (map fst dums) = {}"
    using dist unfolding cols by simp_all
  have "dep \<in> set kept" using dep by (simp add: kept_def)
  with disj have depn: "dep \<notin> fst ` set dums" by auto
  from d obtain v where "v \<in> set cats" and dv: "d \<in> set (dummy_columns str_of facts v)"
    by auto
  from dummy_columns_levels [OF dv] obtain k where
    dk: "d = (v @ ''_'' @ str_of k, v, k)"
    and has: "\<exists>r \<in> set (rows facts). r v = k" and hasnt: "\<exists>r \<in> set (rows facts). r v \<noteq> k"
    by blast
  define n where "n = v @ ''_'' @ str_of k"
  have dn: "d = (n, v, k)" and fn: "fst d = n" using dk by (simp_all add: n_def)
  have din: "(n, v, k) \<in> set dums" using d dn by (simp only: dums_def)
  have cell_n: "\<And>r. dummy_row dums r n = (if r v = k then Num 1 else Num 0)"
    by (rule dummy_row_dummy [OF dd din])
  have cell_dep: "\<And>r. dummy_row dums r dep = r dep"
    by (rule dummy_row_kept [OF depn])
  have all: "{r \<in> set (rows fd). r n \<noteq> Missing \<and> r dep \<noteq> Missing} = set (rows fd)"
    using obs by (auto simp: rws cell_n cell_dep split: if_splits)
  have im_n: "(\<lambda>r. r n) ` set (rows fd) = {Num 0, Num 1}"
  proof -
    have "(\<lambda>r. r n) ` set (rows fd) = (\<lambda>r. dummy_row dums r n) ` set (rows facts)"
      by (simp add: rws image_image)
    also have "\<dots> = (\<lambda>r. if r v = k then Num 1 else Num 0) ` set (rows facts)"
      by (simp only: cell_n)
    also have "\<dots> = {Num 0, Num 1}" by (rule indicator_image [OF has hasnt])
    finally show ?thesis .
  qed
  have im_dep: "(\<lambda>r. r dep) ` set (rows fd) = (\<lambda>r. r dep) ` set (rows facts)"
    by (simp add: rws image_image cell_dep)
  have "shape (crosstab (map (\<lambda>r. r n) (rows fd)) (map (\<lambda>r. r dep) (rows fd)))
      = (card ((\<lambda>r. r n) ` set (rows fd)), card ((\<lambda>r. r dep) ` set (rows fd)))"
    by (simp only: shape_crosstab_columns all)
  also have "\<dots> = (card {Num 0, Num 1 :: cell}, card ((\<lambda>r. r dep) ` set (rows facts)))"
    by (simp only: im_n im_dep)
  also have "card {Num 0, Num 1 :: cell} = 2" by simp
  finally show ?thesis by (simp only: fn)
qed

lemma dummy_is_column:
  assumes fd: "get_dummies_frame str_of facts cats = Inr fd"
      and d: "d \<in> set (concat (map (dummy_columns str_of facts) cats))"
  shows "fst d \<in> set (columns fd)"
  using get_dummies_frame_Inr(1) [OF fd] d by simp

lemma dep_is_column:
  assumes fd: "get_dummies_frame str_of facts cats = Inr fd"
      and dep: "dep \<in> set (columns facts)" "dep \<notin> set cats"
  shows "dep \<in> set (columns fd)"
  using get_dummies_frame_Inr(1) [OF fd] dep by simp

lemma both_groups_card:
  assumes "\<forall>r \<in> set rs. r dep = Str ''Case'' \<or> r dep = Str ''Control''"
      and "\<exists>r \<in> set rs. r dep = Str ''Case''" and "\<exists>r \<in> set rs. r dep = Str ''Control''"
  shows "card ((\<lambda>r. r dep) ` set rs) = 2"
proof -
  have "Missing \<notin> (\<lambda>r. r dep) ` set rs" using assms(1) by auto
  then have "(\<lambda>r. r dep) ` set rs - {Missing} = (\<lambda>r. r dep) ` set rs" by simp
  then show ?thesis using two_groups_card [OF assms(1)] assms(2,3) by simp
qed

lemma filtered_observed:
  "\<forall>r \<in> set rs. r dep = Str ''Case'' \<or> r dep = Str ''Control'' \<Longrightarrow> \<forall>r \<in> set rs. r dep \<noteq> Missing"
  by auto

lemma fisher_loop_completes:
  assumes "\<forall>n. Some n \<in> set names \<and> n \<in> set (columns fd) \<longrightarrow> fisher_var pvalue fd dep n = Inr (f n)"
  shows "\<exists>d'. fisher_loop pvalue fd dep names d = Inr d'
     \<and> dom d' = dom d \<union> {v. Some v \<in> set names \<and> v \<in> set (columns fd)}
     \<and> (\<forall>n. Some n \<in> set names \<and> n \<in> set (columns fd) \<longrightarrow> d' n = Some (f n))
     \<and> (\<forall>k. \<not> (Some k \<in> set names \<and> k \<in> set (columns fd)) \<longrightarrow> d' k = d k)"
  using assms
proof (induction names arbitrary: d)
  case Nil
  then show ?case by simp
next
  case (Cons n names)
  have rest: "\<forall>m. Some m \<in> set names \<and> m \<in> set (columns fd) \<longrightarrow> fisher_var pvalue fd dep m = Inr (f m)"
    using Cons.prems by simp
  show ?case
  proof (cases "n = None \<or> (\<exists>w. n = Some w \<and> w \<notin> set (columns fd))")
    case True
    have same: "\<And>k. (Some k \<in> set (n # names) \<and> k \<in> set (columns fd))
        \<longleftrightarrow> (Some k \<in> set names \<and> k \<in> set (columns fd))"
      using True by auto
    from Cons.IH [OF rest, of d] show ?thesis
      by (simp only: fisher_loop_skip [OF True] listed_Cons_skip [OF True] same)
  next
    case False
    then obtain w where n: "n = Some w" and w: "w \<in> set (columns fd)" by auto
    have fw: "fisher_var pvalue fd dep w = Inr (f w)" using Cons.prems n w by simp
    from Cons.IH [OF rest, of "d(w \<mapsto> f w)"] obtain d' where
      run: "fisher_loop pvalue fd dep names (d(w \<mapsto> f w)) = Inr d'"
      and dm: "dom d' = dom (d(w \<mapsto> f w)) \<union> {v. Some v \<in> set names \<and> v \<in> set (columns fd)}"
      and vals: "\<forall>m. Some m \<in> set names \<and> m \<in> set (columns fd) \<longrightarrow> d' m = Some (f m)"
      and frame: "\<forall>k. \<not> (Some k \<in> set names \<and> k \<in> set (columns fd)) \<longrightarrow> d' k = (d(w \<mapsto> f w)) k"
      by blast
    have 1: "fisher_loop pvalue fd dep (n # names) d = Inr d'"
      using run fw n w by simp
    have "dom (d(w \<mapsto> f w)) = insert w (dom d)" by simp
    with dm have 2: "dom d' = dom d \<union> {v. Some v \<in> set (n # names) \<and> v \<in> set (columns fd)}"
      unfolding n listed_Cons_Some [OF w] by (rule eq_insert_step)
    have 3: "\<forall>m. Some m \<in> set (n # names) \<and> m \<in> set (columns fd) \<longrightarrow> d' m = Some (f m)"
    proof (intro allI impI)
      fix m assume m: "Some m \<in> set (n # names) \<and> m \<in> set (columns fd)"
      show "d' m = Some (f m)"
      proof (cases "Some m \<in> set names")
        case True
        then show ?thesis using vals m by simp
      next
        case False
        with m n have "m = w" by simp
        moreover have "d' w = (d(w \<mapsto> f w)) w" using frame False \<open>m = w\<close> by simp
        ultimately show ?thesis by simp
      qed
    qed
    have 4: "\<forall>k. \<not> (Some k \<in> set (n # names) \<and> k \<in> set (columns fd)) \<longrightarrow> d' k = d k"
    proof (intro allI impI)
      fix k assume k: "\<not> (Some k \<in> set (n # names) \<and> k \<in> set (columns fd))"
      then have kw: "k \<noteq> w" using n w by auto
      from k have "\<not> (Some k \<in> set names \<and> k \<in> set (columns fd))" by auto
      with frame have "d' k = (d(w \<mapsto> f w)) k" by simp
      then show "d' k = d k" using kw by simp
    qed
    from 1 2 3 4 show ?thesis by blast
  qed
qed

lemma fisher_var_two_by_two:
  assumes "var \<in> set (columns fd)" and "dep \<in> set (columns fd)"
      and "shape (crosstab (map (\<lambda>r. r var) (rows fd)) (map (\<lambda>r. r dep) (rows fd))) = (2, 2)"
  shows "fisher_var pvalue fd dep var
     = Inr (pvalue (crosstab (map (\<lambda>r. r var) (rows fd)) (map (\<lambda>r. r dep) (rows fd))))"
  using assms by (simp add: fisher_var_shape Let_def)

lemma fisher_on_dummies:
  assumes fd: "get_dummies_frame str_of facts categorical_varnames = Inr fd"
      and dist: "distinct (columns fd)"
      and dep: "dep \<in> set (columns facts)" "dep \<notin> set categorical_varnames"
      and filtered: "\<forall>r \<in> set (rows facts). r dep = Str ''Case'' \<or> r dep = Str ''Control''"
      and both: "\<exists>r \<in> set (rows facts). r dep = Str ''Case''"
                "\<exists>r \<in> set (rows facts). r dep = Str ''Control''"
      and listed: "\<forall>n. Some n \<in> set names \<longrightarrow>
            n \<in> fst ` set (concat (map (dummy_columns str_of facts) categorical_varnames))
            \<or> n \<notin> set (columns fd)"
  shows "(\<forall>v \<in> set categorical_varnames.
            card ((\<lambda>r. r v) ` set (rows facts) - {Missing}) \<le> 1
              \<longrightarrow> dummy_columns str_of facts v = [])
     \<and> (\<forall>d \<in> set (concat (map (dummy_columns str_of facts) categorical_varnames)).
            2 \<le> card ((\<lambda>r. r (fst (snd d))) ` set (rows facts) - {Missing})
          \<and> shape (crosstab (map (\<lambda>r. r (fst d)) (rows fd)) (map (\<lambda>r. r dep) (rows fd))) = (2, 2))
     \<and> (\<exists>dic. dic_fisher pvalue fd dep names = Inr dic
            \<and> dom dic = {n. Some n \<in> set names \<and> n \<in> set (columns fd)}
            \<and> dom dic \<subseteq> fst ` set (concat (map (dummy_columns str_of facts) categorical_varnames))
            \<and> (\<forall>n \<in> dom dic. dic n =
                  Some (pvalue (crosstab (map (\<lambda>r. r n) (rows fd)) (map (\<lambda>r. r dep) (rows fd))))))"
proof (intro conjI ballI impI)
  fix v assume "card ((\<lambda>r. r v) ` set (rows facts) - {Missing}) \<le> 1"
  then show "dummy_columns str_of facts v = []" by (rule dummy_columns_one_level)
next
  fix d assume d: "d \<in> set (concat (map (dummy_columns str_of facts) categorical_varnames))"
  then obtain v where dv: "d \<in> set (dummy_columns str_of facts v)" by auto
  from dummy_columns_levels [OF dv] obtain k where
    "d = (v @ ''_'' @ str_of k, v, k)"
    and c: "2 \<le> card ((\<lambda>r. r v) ` set (rows facts) - {Missing})" by blast
  then show "2 \<le> card ((\<lambda>r. r (fst (snd d))) ` set (rows facts) - {Missing})" by simp
next
  fix d assume d: "d \<in> set (concat (map (dummy_columns str_of facts) categorical_varnames))"
  have "shape (crosstab (map (\<lambda>r. r (fst d)) (rows fd)) (map (\<lambda>r. r dep) (rows fd)))
      = (2, card ((\<lambda>r. r dep) ` set (rows facts)))"
    using fd dist dep d filtered_observed [OF filtered] by (rule dummy_table_shape)
  also have "card ((\<lambda>r. r dep) ` set (rows facts)) = 2"
    using filtered both by (rule both_groups_card)
  finally show "shape (crosstab (map (\<lambda>r. r (fst d)) (rows fd)) (map (\<lambda>r. r dep) (rows fd))) = (2, 2)" .
next
  define dums where "dums = concat (map (dummy_columns str_of facts) categorical_varnames)"
  define tab where "tab = (\<lambda>n. crosstab (map (\<lambda>r. r n) (rows fd)) (map (\<lambda>r. r dep) (rows fd)))"
  have depc: "dep \<in> set (columns fd)" using fd dep by (rule dep_is_column)
  have sh: "\<And>d. d \<in> set dums \<Longrightarrow> shape (tab (fst d)) = (2, 2)"
  proof -
    fix d assume d: "d \<in> set dums"
    have "shape (tab (fst d)) = (2, card ((\<lambda>r. r dep) ` set (rows facts)))"
      unfolding tab_def using fd dist dep d [unfolded dums_def] filtered_observed [OF filtered]
      by (rule dummy_table_shape)
    also have "card ((\<lambda>r. r dep) ` set (rows facts)) = 2"
      using filtered both by (rule both_groups_card)
    finally show "shape (tab (fst d)) = (2, 2)" .
  qed
  have each: "\<forall>n. Some n \<in> set names \<and> n \<in> set (columns fd)
        \<longrightarrow> fisher_var pvalue fd dep n = Inr (pvalue (tab n))"
  proof (intro allI impI)
    fix n assume n: "Some n \<in> set names \<and> n \<in> set (columns fd)"
    with listed have "n \<in> fst ` set dums" unfolding dums_def by blast
    then obtain d where d: "d \<in> set dums" and nd: "n = fst d" by auto
    have "shape (tab n) = (2, 2)" using sh [OF d] nd by simp
    then show "fisher_var pvalue fd dep n = Inr (pvalue (tab n))"
      unfolding tab_def using n depc by (intro fisher_var_two_by_two) simp_all
  qed
  from fisher_loop_completes [OF each, of Map.empty] obtain dic where
    run: "fisher_loop pvalue fd dep names Map.empty = Inr dic"
    and dm: "dom dic = dom (Map.empty :: dic) \<union> {v. Some v \<in> set names \<and> v \<in> set (columns fd)}"
    and vals: "\<forall>n. Some n \<in> set names \<and> n \<in> set (columns fd) \<longrightarrow> dic n = Some (pvalue (tab n))"
    by blast
  have 1: "dic_fisher pvalue fd dep names = Inr dic" using run by (simp add: dic_fisher_def)
  have 2: "dom dic = {n. Some n \<in> set names \<and> n \<in> set (columns fd)}" using dm by simp
  have 3: "dom dic \<subseteq> fst ` set dums" unfolding 2 using listed by (auto simp: dums_def)
  have 4: "\<forall>n \<in> dom dic. dic n = Some (pvalue (tab n))" unfolding 2 using vals by simp
  from 1 2 3 4
  show "\<exists>dic. dic_fisher pvalue fd dep names = Inr dic
            \<and> dom dic = {n. Some n \<in> set names \<and> n \<in> set (columns fd)}
            \<and> dom dic \<subseteq> fst ` set (concat (map (dummy_columns str_of facts) categorical_varnames))
            \<and> (\<forall>n \<in> dom dic. dic n =
                  Some (pvalue (crosstab (map (\<lambda>r. r n) (rows fd)) (map (\<lambda>r. r dep) (rows fd)))))"
    unfolding dums_def tab_def by blast
qed

lemma survey_site_levels:
  "unique_sorted (map (\<lambda>r. r ''site'')
      [r \<leftarrow> rows survey. r ''status'' = Str ''Case'' \<or> r ''status'' = Str ''Control'']) = [Str ''A'']"
  by (simp add: survey_def row_of_def unique_sorted_def cell_rank_def)

lemma survey_smoker_levels:
  "unique_sorted (map (\<lambda>r. r ''smoker'')
      [r \<leftarrow> rows survey. r ''status'' = Str ''Case'' \<or> r ''status'' = Str ''Control''])
     = [Str ''no'', Str ''yes'']"
  by (simp add: survey_def row_of_def unique_sorted_def cell_rank_def)


lemma survey_dummy_columns:
  "dummy_columns str_label
      (survey\<lparr>rows := [r \<leftarrow> rows survey. r ''status'' = Str ''Case'' \<or> r ''status'' = Str ''Control'']\<rparr>)
      ''site'' = []"
  "dummy_columns str_label
      (survey\<lparr>rows := [r \<leftarrow> rows survey. r ''status'' = Str ''Case'' \<or> r ''status'' = Str ''Control'']\<rparr>)
      ''smoker'' = [(''smoker_yes'', ''smoker'', Str ''yes'')]"
  by (simp_all add: dummy_columns_def survey_site_levels survey_smoker_levels str_label_def)

lemma survey_dummies:
  "get_dummies_frame str_label
      (survey\<lparr>rows := [r \<leftarrow> rows survey. r ''status'' = Str ''Case'' \<or> r ''status'' = Str ''Control'']\<rparr>)
      [''site'', ''smoker'']
     = Inr \<lparr>columns = [''status'', ''smoker_yes''],
            rows = map (dummy_row [(''smoker_yes'', ''smoker'', Str ''yes'')])
                     [r \<leftarrow> rows survey. r ''status'' = Str ''Case'' \<or> r ''status'' = Str ''Control'']\<rparr>"
  by (simp add: get_dummies_frame_def survey_dummy_columns Let_def) (simp add: survey_def)

lemma survey_fisher_smoker:
  "fisher_var (\<lambda>t. Fin (1/2))
      \<lparr>columns = [''status'', ''smoker_yes''],
       rows = map (dummy_row [(''smoker_yes'', ''smoker'', Str ''yes'')])
                [r \<leftarrow> rows survey. r ''status'' = Str ''Case'' \<or> r ''status'' = Str ''Control'']\<rparr>
      ''status'' ''smoker_yes'' = Inr (Fin (1/2))"
  by (simp add: fisher_var_def getcol_def fisher_exact_def crosstab_def shape_def dummy_row_def
        survey_def row_of_def unique_sorted_def cell_rank_def)


lemma listed_take:
  assumes "\<forall>n. Some n \<in> set names \<longrightarrow> n \<in> D \<or> n \<notin> C"
  shows "\<forall>n. Some n \<in> set (take k names) \<longrightarrow> n \<in> D \<or> n \<notin> C"
  using assms by (blast dest: in_set_takeD)

text \<open>
  C3, as the code has it. The cohort matrix has passed the filter cell, \<^verbatim>\<open>facts_dummies\<close>
  is made from it by \<^verbatim>\<open>get_dummies(..., drop_first=True)\<close> with distinct column names, and
  every listed string is the name of a dummy column or of no column. Then a categorical
  variable with at most one distinct observed value has no dummy column, so the Fisher loop
  tabulates nothing for it and records nothing for it, neither a p-value nor an undefined
  marker. Every dummy column belongs to a variable with at least two observed values, and
  its table with the grouping column is 2 by 2: the branch for the 1 by 2 table is never
  taken and the test never raises. The loop ends, in the notebook that runs it over the
  first 500 entries as well, with one record for each listed dummy column and no other, the
  p-value of its table.
\<close>

theorem one_level_variable_gets_no_record:
  assumes passed: "cohort_filter raw dep = Inr facts"
      and fd: "get_dummies_frame str_of facts categorical_varnames = Inr fd"
      and dist: "distinct (columns fd)"
      and dep: "dep \<notin> set categorical_varnames"
      and listed: "\<forall>n. Some n \<in> set names \<longrightarrow>
            n \<in> fst ` set (concat (map (dummy_columns str_of facts) categorical_varnames))
            \<or> n \<notin> set (columns fd)"
  shows "(\<forall>v \<in> set categorical_varnames.
            card ((\<lambda>r. r v) ` set (rows facts) - {Missing}) \<le> 1
              \<longrightarrow> dummy_columns str_of facts v = [])
     \<and> (\<forall>d \<in> set (concat (map (dummy_columns str_of facts) categorical_varnames)).
            2 \<le> card ((\<lambda>r. r (fst (snd d))) ` set (rows facts) - {Missing})
          \<and> shape (crosstab (map (\<lambda>r. r (fst d)) (rows fd)) (map (\<lambda>r. r dep) (rows fd))) = (2, 2))
     \<and> (\<exists>dic. dic_fisher pvalue fd dep names = Inr dic
            \<and> dom dic = {n. Some n \<in> set names \<and> n \<in> set (columns fd)}
            \<and> dom dic \<subseteq> fst ` set (concat (map (dummy_columns str_of facts) categorical_varnames))
            \<and> (\<forall>n \<in> dom dic. dic n =
                  Some (pvalue (crosstab (map (\<lambda>r. r n) (rows fd)) (map (\<lambda>r. r dep) (rows fd))))))
     \<and> (\<exists>dic. dic_fisher_101 pvalue fd dep names = Inr dic
            \<and> dom dic = {n. Some n \<in> set (take 500 names) \<and> n \<in> set (columns fd)}
            \<and> dom dic \<subseteq> fst ` set (concat (map (dummy_columns str_of facts) categorical_varnames)))"
proof -
  note p = cohort_filter_passed [OF passed]
  note all = fisher_on_dummies [OF fd dist p(1) dep p(2) p(3) p(4) listed, where pvalue = pvalue]
  note short = fisher_on_dummies [OF fd dist p(1) dep p(2) p(3) p(4) listed_take [OF listed, where k = 500],
      where pvalue = pvalue]
  from short have
    "\<exists>dic. dic_fisher pvalue fd dep (take 500 names) = Inr dic
        \<and> dom dic = {n. Some n \<in> set (take 500 names) \<and> n \<in> set (columns fd)}
        \<and> dom dic \<subseteq> fst ` set (concat (map (dummy_columns str_of facts) categorical_varnames))"
    by blast
  then have s101:
    "\<exists>dic. dic_fisher_101 pvalue fd dep names = Inr dic
        \<and> dom dic = {n. Some n \<in> set (take 500 names) \<and> n \<in> set (columns fd)}
        \<and> dom dic \<subseteq> fst ` set (concat (map (dummy_columns str_of facts) categorical_varnames))"
    by (simp only: dic_fisher_101_eq)
  show ?thesis
    apply (rule conjI, rule all [THEN conjunct1])
    apply (rule conjI, rule all [THEN conjunct2, THEN conjunct1])
    apply (rule conjI, rule all [THEN conjunct2, THEN conjunct2])
    apply (rule s101)
    done
qed

theorem one_level_variable_gets_no_record_witness:
  "\<exists>facts fd. cohort_filter survey ''status'' = Inr facts
     \<and> get_dummies_frame str_label facts [''site'', ''smoker''] = Inr fd
     \<and> columns fd = [''status'', ''smoker_yes'']
     \<and> ''status'' \<notin> set [''site'', ''smoker'']
     \<and> ''smoker_yes'' \<in> fst ` set (concat (map (dummy_columns str_label facts) [''site'', ''smoker'']))
     \<and> card ((\<lambda>r. r ''site'') ` set (rows facts) - {Missing}) \<le> 1
     \<and> dummy_columns str_label facts ''site'' = []
     \<and> (\<exists>dic. dic_fisher (\<lambda>t. Fin (1/2)) fd ''status'' [None, Some ''smoker_yes''] = Inr dic
            \<and> dom dic = {''smoker_yes''})"
proof -
  define facts where
    "facts = survey\<lparr>rows := [r \<leftarrow> rows survey. r ''status'' = Str ''Case'' \<or> r ''status'' = Str ''Control'']\<rparr>"
  define fd where
    "fd = \<lparr>columns = [''status'', ''smoker_yes''],
           rows = map (dummy_row [(''smoker_yes'', ''smoker'', Str ''yes'')])
                    [r \<leftarrow> rows survey. r ''status'' = Str ''Case'' \<or> r ''status'' = Str ''Control'']\<rparr>"
  have 1: "cohort_filter survey ''status'' = Inr facts"
    unfolding facts_def by (rule survey_passes)
  have 2: "get_dummies_frame str_label facts [''site'', ''smoker''] = Inr fd"
    unfolding facts_def fd_def by (rule survey_dummies)
  have 3: "columns fd = [''status'', ''smoker_yes'']" by (simp add: fd_def)
  have 4: "''status'' \<notin> set [''site'', ''smoker'']" by simp
  have dums: "concat (map (dummy_columns str_label facts) [''site'', ''smoker''])
        = [(''smoker_yes'', ''smoker'', Str ''yes'')]"
    unfolding facts_def by (simp add: survey_dummy_columns)
  have 5: "''smoker_yes'' \<in> fst ` set (concat (map (dummy_columns str_label facts) [''site'', ''smoker'']))"
    unfolding dums by simp
  have len: "length (unique_sorted (map (\<lambda>r. r ''site'') (rows facts))) = 1"
    unfolding facts_def by (simp add: survey_site_levels)
  have 6: "card ((\<lambda>r. r ''site'') ` set (rows facts) - {Missing}) \<le> 1"
    using len by (simp add: length_unique_sorted)
  have dist: "distinct (columns fd)" by (simp add: 3)
  have listed: "\<forall>n. Some n \<in> set [None, Some ''smoker_yes''] \<longrightarrow>
            n \<in> fst ` set (concat (map (dummy_columns str_label facts) [''site'', ''smoker'']))
            \<or> n \<notin> set (columns fd)"
    using 5 by simp
  note c3 = one_level_variable_gets_no_record [OF 1 2 dist 4 listed, of "\<lambda>t. Fin (1/2)"]
  have m: "''site'' \<in> set [''site'', ''smoker'']" by simp
  have 7: "dummy_columns str_label facts ''site'' = []"
    by (rule mp [OF bspec [OF c3 [THEN conjunct1] m] 6])
  have dm: "{n. Some n \<in> set [None, Some ''smoker_yes''] \<and> n \<in> set (columns fd)} = {''smoker_yes''}"
    by (auto simp: 3)
  from c3 [THEN conjunct2, THEN conjunct2, THEN conjunct1] obtain dic where
    d: "dic_fisher (\<lambda>t. Fin (1/2)) fd ''status'' [None, Some ''smoker_yes''] = Inr dic
        \<and> dom dic = {n. Some n \<in> set [None, Some ''smoker_yes''] \<and> n \<in> set (columns fd)}
        \<and> dom dic \<subseteq> fst ` set (concat (map (dummy_columns str_label facts) [''site'', ''smoker'']))
        \<and> (\<forall>n \<in> dom dic. dic n =
              Some (Fin (1/2)))" ..
  have d1: "dic_fisher (\<lambda>t. Fin (1/2)) fd ''status'' [None, Some ''smoker_yes''] = Inr dic"
    using d by (rule conjunct1)
  have "dom dic = {n. Some n \<in> set [None, Some ''smoker_yes''] \<and> n \<in> set (columns fd)}"
    using d by (rule conjunct2 [THEN conjunct1])
  then have d2: "dom dic = {''smoker_yes''}" by (simp only: dm)
  have 8: "\<exists>dic. dic_fisher (\<lambda>t. Fin (1/2)) fd ''status'' [None, Some ''smoker_yes''] = Inr dic
            \<and> dom dic = {''smoker_yes''}"
    by (rule exI [of _ dic], rule conjI, rule d1, rule d2)
  show ?thesis
    apply (rule exI [of _ facts])
    apply (rule exI [of _ fd])
    apply (intro conjI)
           apply (rule 1)
          apply (rule 2)
         apply (rule 3)
        apply (rule 4)
       apply (rule 5)
      apply (rule 6)
     apply (rule 7)
    apply (rule 8)
    done
qed

text \<open>
  C3 as stated fails on \<open>survey\<close>: among the rows the filter keeps, \<^verbatim>\<open>site\<close> has the one
  value \<^verbatim>\<open>A\<close>; the matrix of dummy columns has the columns \<^verbatim>\<open>status\<close> and \<^verbatim>\<open>smoker_yes\<close> and
  none for \<^verbatim>\<open>site\<close>; and the Fisher loop ends with the record of \<^verbatim>\<open>smoker_yes\<close> alone,
  whether \<^verbatim>\<open>site\<close> is listed as a non-string entry, under its own name or under the name
  of the dummy column it does not have. The variable gets no undefined result: it gets no
  result.
\<close>

theorem one_level_variable_has_no_undefined_result:
  "\<exists>facts fd. cohort_filter survey ''status'' = Inr facts
     \<and> unique_sorted (map (\<lambda>r. r ''site'') (rows facts)) = [Str ''A'']
     \<and> get_dummies_frame str_label facts [''site'', ''smoker''] = Inr fd
     \<and> columns fd = [''status'', ''smoker_yes'']
     \<and> dic_fisher (\<lambda>t. Fin (1/2)) fd ''status'' [None, Some ''smoker_yes'']
          = Inr [''smoker_yes'' \<mapsto> Fin (1/2)]
     \<and> dic_fisher (\<lambda>t. Fin (1/2)) fd ''status'' [Some ''site'', Some ''site_A'', Some ''smoker_yes'']
          = Inr [''smoker_yes'' \<mapsto> Fin (1/2)]"
proof -
  define facts where
    "facts = survey\<lparr>rows := [r \<leftarrow> rows survey. r ''status'' = Str ''Case'' \<or> r ''status'' = Str ''Control'']\<rparr>"
  define fd where
    "fd = \<lparr>columns = [''status'', ''smoker_yes''],
           rows = map (dummy_row [(''smoker_yes'', ''smoker'', Str ''yes'')])
                    [r \<leftarrow> rows survey. r ''status'' = Str ''Case'' \<or> r ''status'' = Str ''Control'']\<rparr>"
  have 1: "cohort_filter survey ''status'' = Inr facts"
    unfolding facts_def by (rule survey_passes)
  have 2: "unique_sorted (map (\<lambda>r. r ''site'') (rows facts)) = [Str ''A'']"
    unfolding facts_def by (simp add: survey_site_levels)
  have 3: "get_dummies_frame str_label facts [''site'', ''smoker''] = Inr fd"
    unfolding facts_def fd_def by (rule survey_dummies)
  have 4: "columns fd = [''status'', ''smoker_yes'']" by (simp add: fd_def)
  have f: "fisher_var (\<lambda>t. Fin (1/2)) fd ''status'' ''smoker_yes'' = Inr (Fin (1/2))"
    unfolding fd_def by (rule survey_fisher_smoker)
  have 5: "dic_fisher (\<lambda>t. Fin (1/2)) fd ''status'' [None, Some ''smoker_yes'']
          = Inr [''smoker_yes'' \<mapsto> Fin (1/2)]"
    by (simp add: dic_fisher_def 4 f)
  have 6: "dic_fisher (\<lambda>t. Fin (1/2)) fd ''status'' [Some ''site'', Some ''site_A'', Some ''smoker_yes'']
          = Inr [''smoker_yes'' \<mapsto> Fin (1/2)]"
    by (simp add: dic_fisher_def 4 f)
  from 1 2 3 4 5 6 show ?thesis by blast
qed

section \<open>Failures of one variable\<close>







lemma ex_fisher_smoker: "fisher_var (\<lambda>t. Fin (1/2)) two_group_cohort ''status'' ''smoker_yes'' = Inr (Fin (1/2))"
  by (simp add: fisher_var_def getcol_def fisher_exact_def crosstab_def shape_def
        two_group_cohort_def row_of_def unique_sorted_def cell_rank_def)



lemma fisher_loop_step:
  assumes "var \<in> set (columns fd)" and "dep \<in> set (columns fd)"
  shows "fisher_loop pvalue fd dep (Some var # names) d =
     (let t = crosstab (map (\<lambda>r. r var) (rows fd)) (map (\<lambda>r. r dep) (rows fd))
      in if shape t = (1, 2) then fisher_loop pvalue fd dep names (d(var \<mapsto> NaN))
         else if shape t = (2, 2) then fisher_loop pvalue fd dep names (d(var \<mapsto> pvalue t))
         else Inl (ValueError, d))"
  using assms by (simp add: fisher_var_shape Let_def)





text \<open>
  The hypothesis that the filter cell has ended matters to the Fisher loop. In \<open>survey_cases\<close>
  every kept subject is a case: the \<^verbatim>\<open>print\<close> of the filter cell raises \<^verbatim>\<open>IndexError\<close>, with
  \<^verbatim>\<open>facts\<close> already reassigned. If the later cells are run on it all the same, the table of
  every dummy column is 2 by 1 and the loop stops at the first one.
\<close>

lemma survey_cases_stops:
  "cohort_filter survey_cases ''status''
     = Inl (IndexError,
            survey_cases\<lparr>rows := [r \<leftarrow> rows survey_cases.
                                     r ''status'' = Str ''Case'' \<or> r ''status'' = Str ''Control'']\<rparr>)"
proof -
  have c: "''status'' \<in> set (columns survey_cases)" by (simp add: survey_cases_def)
  have b: "\<not> ((\<exists>r \<in> set (rows survey_cases). r ''status'' = Str ''Case'')
         \<and> (\<exists>r \<in> set (rows survey_cases). r ''status'' = Str ''Control''))"
    by (simp add: survey_cases_def row_of_def)
  show ?thesis unfolding cohort_filter_outcome [OF c] using b by (rule if_not_P)
qed

lemma survey_cases_dummy_columns:
  "dummy_columns str_label
      (survey_cases\<lparr>rows := [r \<leftarrow> rows survey_cases.
                               r ''status'' = Str ''Case'' \<or> r ''status'' = Str ''Control'']\<rparr>)
      ''smoker'' = [(''smoker_yes'', ''smoker'', Str ''yes'')]"
  "dummy_columns str_label
      (survey_cases\<lparr>rows := [r \<leftarrow> rows survey_cases.
                               r ''status'' = Str ''Case'' \<or> r ''status'' = Str ''Control'']\<rparr>)
      ''sex'' = [(''sex_M'', ''sex'', Str ''M'')]"
  by (simp_all add: dummy_columns_def str_label_def survey_cases_def row_of_def unique_sorted_def cell_rank_def)

lemma fisher_after_stopped_filter:
  "\<exists>kept fdum. cohort_filter survey_cases ''status'' = Inl (IndexError, kept)
     \<and> get_dummies_frame str_label kept [''smoker'', ''sex''] = Inr fdum
     \<and> columns fdum = [''status'', ''smoker_yes'', ''sex_M'']
     \<and> shape (crosstab (map (\<lambda>r. r ''smoker_yes'') (rows fdum))
                        (map (\<lambda>r. r ''status'') (rows fdum))) = (2, 1)
     \<and> dic_fisher (\<lambda>t. Fin (1/2)) fdum ''status'' [Some ''smoker_yes'', Some ''sex_M'']
          = Inl (ValueError, Map.empty)"
proof -
  define kept where
    "kept = survey_cases\<lparr>rows := [r \<leftarrow> rows survey_cases.
                               r ''status'' = Str ''Case'' \<or> r ''status'' = Str ''Control'']\<rparr>"
  define fdum where
    "fdum = \<lparr>columns = [''status'', ''smoker_yes'', ''sex_M''],
             rows = map (dummy_row [(''smoker_yes'', ''smoker'', Str ''yes''), (''sex_M'', ''sex'', Str ''M'')])
                      [r \<leftarrow> rows survey_cases.
                         r ''status'' = Str ''Case'' \<or> r ''status'' = Str ''Control'']\<rparr>"
  have 1: "cohort_filter survey_cases ''status'' = Inl (IndexError, kept)"
    unfolding kept_def by (rule survey_cases_stops)
  have 2: "get_dummies_frame str_label kept [''smoker'', ''sex''] = Inr fdum"
    unfolding kept_def fdum_def
    by (simp add: get_dummies_frame_def survey_cases_dummy_columns Let_def) (simp add: survey_cases_def)
  have 3: "columns fdum = [''status'', ''smoker_yes'', ''sex_M'']" by (simp add: fdum_def)
  have 4: "shape (crosstab (map (\<lambda>r. r ''smoker_yes'') (rows fdum))
                        (map (\<lambda>r. r ''status'') (rows fdum))) = (2, 1)"
    by (simp add: fdum_def crosstab_def shape_def dummy_row_def survey_cases_def row_of_def
          unique_sorted_def cell_rank_def)
  have cols: "''smoker_yes'' \<in> set (columns fdum)" "''status'' \<in> set (columns fdum)"
    by (simp_all add: 3)
  have 5: "dic_fisher (\<lambda>t. Fin (1/2)) fdum ''status'' [Some ''smoker_yes'', Some ''sex_M'']
          = Inl (ValueError, Map.empty)"
    unfolding dic_fisher_def fisher_loop_step [OF cols] by (simp add: 4)
  show ?thesis
    apply (rule exI [of _ kept])
    apply (rule exI [of _ fdum])
    apply (intro conjI)
        apply (rule 1)
       apply (rule 2)
      apply (rule 3)
     apply (rule 4)
    apply (rule 5)
    done
qed

section \<open>Result records and screened variables\<close>

lemma dic_pvalues_completes:
  assumes dist: "distinct (map fst vd)" and dep: "dep \<in> fst ` set vd"
      and cols: "fst ` set vd \<subseteq> set (columns facts)"
      and cons: "\<forall>x. \<exists>m. logit x = Inr m"
      and fails: "\<forall>m e. fit m = Inl e \<longrightarrow> e = LinAlgError \<or> e = PerfectSeparationError"
  shows "\<exists>d. dic_pvalues logit fit vd facts dep = Inr d \<and> dom d = fst ` set vd - {dep}"
proof -
  let ?vars = "remove1 dep (map fst vd)"
  have sub: "set ?vars \<subseteq> fst ` set vd" using set_remove1_subset [of dep "map fst vd"] by simp
  have depc: "dep \<in> set (columns facts)" using dep cols by blast
  have "\<forall>v \<in> set ?vars. \<exists>p. llr_var logit fit vd facts dep v = Inr p"
  proof
    fix v assume "v \<in> set ?vars"
    then have v: "v \<in> fst ` set vd" using sub by blast
    then have "v \<in> set (columns facts)" using cols by blast
    from llr_var_returns [OF depc this v dist cons fails]
    show "\<exists>p. llr_var logit fit vd facts dep v = Inr p" .
  qed
  from llr_loop_completes [OF this, of Map.empty]
  obtain d where run: "llr_loop logit fit vd facts dep ?vars Map.empty = Inr d"
    and dm: "dom d = dom (Map.empty :: dic) \<union> set ?vars" by (elim exE conjE)
  have "set ?vars = fst ` set vd - {dep}" using dist by (simp add: set_remove1_eq)
  with dm have "dom d = fst ` set vd - {dep}" by simp
  moreover have "dic_pvalues logit fit vd facts dep = Inr d"
    using dep depc run by (simp add: dic_pvalues_def)
  ultimately show ?thesis by blast
qed

lemma dic_pvalues_dom:
  "dom (final_dic (dic_pvalues logit fit vd facts dep)) \<subseteq> fst ` set vd"
proof (cases "dep \<in> set (map fst vd)")
  case False
  then show ?thesis by (simp add: dic_pvalues_def final_dic_def)
next
  case True
  have "dom (final_dic (llr_loop logit fit vd facts dep (remove1 dep (map fst vd)) Map.empty))
      \<subseteq> dom (Map.empty :: dic) \<union> set (remove1 dep (map fst vd))"
    by (rule llr_loop_dom)
  moreover have "set (remove1 dep (map fst vd)) \<subseteq> fst ` set vd"
    using set_remove1_subset [of dep "map fst vd"] by simp
  ultimately show ?thesis using True by (auto simp: dic_pvalues_def final_dic_def)
qed

text \<open>
  C2, as the code has it. Likelihood-ratio loop: when the dictionary's names are distinct and
  are columns of the cohort matrix, the constructor does not raise and the fit raises
  nothing but the two caught exceptions, the loop ends and \<^verbatim>\<open>dic_pvalues\<close> has one record for
  every variable of the dictionary but the grouping trait, and no other; in any case every
  key is a variable of the dictionary. Fisher loop: every key of \<^verbatim>\<open>dic_fisher\<close> is a listed
  string that is a column of the cohort matrix, and when the loop ends the keys are exactly
  those; the other listed entries have no record. The 101 notebook runs that loop on the
  first 500 entries only.
\<close>

theorem records_match_screened_variables:
  "(distinct (map fst vd) \<and> dep \<in> fst ` set vd \<and> fst ` set vd \<subseteq> set (columns facts)
      \<and> (\<forall>x. \<exists>m. logit x = Inr m)
      \<and> (\<forall>m e. fit m = Inl e \<longrightarrow> e = LinAlgError \<or> e = PerfectSeparationError)
     \<longrightarrow> (\<exists>d. dic_pvalues logit fit vd facts dep = Inr d \<and> dom d = fst ` set vd - {dep}))
   \<and> dom (final_dic (dic_pvalues logit fit vd facts dep)) \<subseteq> fst ` set vd
   \<and> dom (final_dic (dic_fisher pvalue fd gdep names))
        \<subseteq> {v. Some v \<in> set names \<and> v \<in> set (columns fd)}
   \<and> (\<forall>d. dic_fisher pvalue fd gdep names = Inr d
         \<longrightarrow> dom d = {v. Some v \<in> set names \<and> v \<in> set (columns fd)})
   \<and> dic_fisher_101 pvalue fd gdep names = dic_fisher pvalue fd gdep (take 500 names)"
proof (intro conjI impI allI)
  assume "distinct (map fst vd) \<and> dep \<in> fst ` set vd \<and> fst ` set vd \<subseteq> set (columns facts)
      \<and> (\<forall>x. \<exists>m. logit x = Inr m)
      \<and> (\<forall>m e. fit m = Inl e \<longrightarrow> e = LinAlgError \<or> e = PerfectSeparationError)"
  then have 1: "distinct (map fst vd)" and 2: "dep \<in> fst ` set vd"
    and 3: "fst ` set vd \<subseteq> set (columns facts)"
    and 4: "\<forall>x. \<exists>m. logit x = Inr m"
    and 5: "\<forall>m e. fit m = Inl e \<longrightarrow> e = LinAlgError \<or> e = PerfectSeparationError"
    by simp_all
  show "\<exists>d. dic_pvalues logit fit vd facts dep = Inr d \<and> dom d = fst ` set vd - {dep}"
    using 1 2 3 4 5 by (rule dic_pvalues_completes)
next
  show "dom (final_dic (dic_pvalues logit fit vd facts dep)) \<subseteq> fst ` set vd"
    by (rule dic_pvalues_dom)
next
  show "dom (final_dic (dic_fisher pvalue fd gdep names))
        \<subseteq> {v. Some v \<in> set names \<and> v \<in> set (columns fd)}"
    using fisher_loop_dom [of pvalue fd gdep names Map.empty] by (simp add: dic_fisher_def)
next
  fix d assume "dic_fisher pvalue fd gdep names = Inr d"
  then have "fisher_loop pvalue fd gdep names Map.empty = Inr d" by (simp add: dic_fisher_def)
  from fisher_loop_dom_done [OF this]
  show "dom d = {v. Some v \<in> set names \<and> v \<in> set (columns fd)}" by simp
next
  show "dic_fisher_101 pvalue fd gdep names = dic_fisher pvalue fd gdep (take 500 names)"
    by (rule dic_fisher_101_eq)
qed

theorem records_match_screened_variables_witness:
  "(\<exists>d. dic_pvalues Inr fit_stub example_dict example_facts ''status'' = Inr d
        \<and> dom d = {''x'', ''y'', ''z''})
   \<and> dic_fisher (\<lambda>t. Fin (1/2)) two_group_cohort ''status'' [Some ''smoker_yes'', Some ''ghost'', None]
       = Inr [''smoker_yes'' \<mapsto> Fin (1/2)]"
proof -
  note c2 = records_match_screened_variables
     [where vd = example_dict and dep = "''status''" and facts = example_facts
        and logit = "Inr :: design \<Rightarrow> exn + design" and fit = fit_stub, THEN conjunct1]
  have h1: "distinct (map fst example_dict)" "''status'' \<in> fst ` set example_dict"
    by (simp_all add: example_dict_def)
  have h2: "fst ` set example_dict \<subseteq> set (columns example_facts)"
    by (simp add: example_dict_def example_facts_def)
  have h3: "\<forall>x. \<exists>m. (Inr :: design \<Rightarrow> exn + design) x = Inr m" by simp
  have h4: "\<forall>m e. fit_stub m = Inl e \<longrightarrow> e = LinAlgError \<or> e = PerfectSeparationError"
    by (simp add: fit_stub_def)
  have s: "fst ` set example_dict - {''status''} = {''x'', ''y'', ''z''}"
    by (auto simp: example_dict_def)
  have prem: "distinct (map fst example_dict) \<and> ''status'' \<in> fst ` set example_dict
      \<and> fst ` set example_dict \<subseteq> set (columns example_facts)
      \<and> (\<forall>x. \<exists>m. (Inr :: design \<Rightarrow> exn + design) x = Inr m)
      \<and> (\<forall>m e. fit_stub m = Inl e \<longrightarrow> e = LinAlgError \<or> e = PerfectSeparationError)"
    using h1 h2 h3 h4 by (intro conjI)
  have a: "\<exists>d. dic_pvalues Inr fit_stub example_dict example_facts ''status'' = Inr d
        \<and> dom d = {''x'', ''y'', ''z''}"
    using c2 [THEN mp, OF prem] unfolding s .
  have b: "dic_fisher (\<lambda>t. Fin (1/2)) two_group_cohort ''status'' [Some ''smoker_yes'', Some ''ghost'', None]
       = Inr [''smoker_yes'' \<mapsto> Fin (1/2)]"
    by (simp add: dic_fisher_def ex_fisher_smoker) (simp add: two_group_cohort_def)
  from a b show ?thesis by (rule conjI)
qed

end
